theory Spec2Isabelle
  imports Complex_Main "HOL-Library.AList"
begin

text \<open>
  A shallow embedding of the AI request-orchestration services of the workbench: the
  error taxonomy and the retry wrapper, the model configuration registry, the service
  manager, the conversation memory, the streaming path of the local-model adapter and
  the in-memory vector store. Promises are modelled by what they settle with, mutable
  services by explicit state passing, and external collaborators (network, storage,
  secret store, editor context, providers) by parameters giving the outcome of each
  call. The definitions come first; the properties follow.
\<close>

section \<open>Error taxonomy (aiErrors.ts)\<close>

text \<open>
  The enum \<open>AIErrorCode\<close> and the class \<open>AIError\<close>. The field \<open>details\<close> has type
  \<open>any\<close> in the source; the three shapes the modelled code stores there are kept.
  Durations are milliseconds, modelled as integers.
\<close>

datatype AIErrorCode =
    CONNECTION_FAILED | TIMEOUT | NETWORK_ERROR
  | INVALID_API_KEY | AUTHENTICATION_FAILED | AUTHORIZATION_FAILED
  | MODEL_NOT_FOUND | MODEL_UNAVAILABLE | MODEL_OVERLOADED
  | INVALID_REQUEST | CONTEXT_TOO_LARGE | RATE_LIMITED | QUOTA_EXCEEDED
  | INVALID_RESPONSE | PARSING_ERROR | INCOMPLETE_RESPONSE
  | SERVICE_UNAVAILABLE | CONFIGURATION_ERROR | INTERNAL_ERROR
  | REASONING_FAILED | ACTION_FAILED | RAG_SEARCH_FAILED | EMBEDDING_FAILED

text \<open>
  A thrown object that is not an \<open>AIError\<close>: only its optional \<open>code\<close> and
  \<open>message\<close> properties are ever read.
\<close>

record raw_error =
  err_code :: "string option"
  err_message :: "string option"

datatype error_details = NoDetails | RawDetails raw_error | ModelIdDetails string

record AIError =
  code :: AIErrorCode
  message :: string
  details :: error_details
  retryable :: bool
  retryAfter :: "int option"

text \<open>\<open>new AIError(code, message)\<close>: the constructor defaults (\<open>retryable = false\<close>).\<close>

definition new_AIError :: "AIErrorCode \<Rightarrow> string \<Rightarrow> AIError" where
  "new_AIError c m =
     \<lparr>code = c, message = m, details = NoDetails, retryable = False, retryAfter = None\<rparr>"

definition connectionFailed :: "error_details \<Rightarrow> AIError" where
  "connectionFailed d =
     \<lparr>code = CONNECTION_FAILED, message = ''Failed to connect to AI service'',
      details = d, retryable = True, retryAfter = Some 5000\<rparr>"

definition timeout :: "error_details \<Rightarrow> AIError" where
  "timeout d =
     \<lparr>code = TIMEOUT, message = ''Request timed out'',
      details = d, retryable = True, retryAfter = Some 1000\<rparr>"

definition modelNotFound :: "string \<Rightarrow> AIError" where
  "modelNotFound modelId =
     \<lparr>code = MODEL_NOT_FOUND,
      message = ''Model '' @ [CHR 0x27] @ modelId @ [CHR 0x27] @ '' not found'',
      details = ModelIdDetails modelId, retryable = False, retryAfter = None\<rparr>"

definition rateLimited :: "int option \<Rightarrow> AIError" where
  "rateLimited ra =
     \<lparr>code = RATE_LIMITED, message = ''Rate limit exceeded'',
      details = NoDetails, retryable = True, retryAfter = ra\<rparr>"

text \<open>\<open>DefaultErrorHandler\<close>. \<open>error.retryAfter || 1000\<close> takes 1000 for \<open>undefined\<close>
  and for \<open>0\<close>.\<close>

definition shouldRetry :: "AIError \<Rightarrow> bool" where
  "shouldRetry e = retryable e"

definition baseDelay :: "AIError \<Rightarrow> int" where
  "baseDelay e = (case retryAfter e of None \<Rightarrow> 1000 | Some n \<Rightarrow> if n = 0 then 1000 else n)"

definition getRetryDelay :: "AIError \<Rightarrow> nat \<Rightarrow> int" where
  "getRetryDelay e attempt = min (baseDelay e * 2 ^ attempt) 30000"

section \<open>The retry wrapper of the service manager (AIServiceManager)\<close>

text \<open>
  What a promise rejects with: an \<open>AIError\<close> or some other object.
\<close>

datatype thrown = AIErr AIError | Other raw_error

text \<open>\<open>AIServiceManager.handleError\<close>: classification of a caught value.\<close>

definition handleError :: "thrown \<Rightarrow> AIError" where
  "handleError error =
     (case error of
        AIErr e \<Rightarrow> e
      | Other r \<Rightarrow>
          if err_code r = Some ''ECONNREFUSED'' \<or> err_code r = Some ''ENOTFOUND''
          then connectionFailed (RawDetails r)
          else if err_code r = Some ''ETIMEDOUT'' then timeout (RawDetails r)
          else \<lparr>code = INTERNAL_ERROR,
                message = (case err_message r of
                             None \<Rightarrow> ''Unknown error''
                           | Some m \<Rightarrow> if m = [] then ''Unknown error'' else m),
                details = RawDetails r, retryable = False, retryAfter = None\<rparr>)"

text \<open>
  \<open>executeWithRetry(operation, token, maxRetries = 3)\<close>. The operation is effectful:
  \<open>operation k\<close> is the outcome of its invocation in loop iteration \<open>k\<close> (counted from 0).
  The optional token is \<open>None\<close> or a function giving \<open>isCancellationRequested\<close> at the
  check that opens iteration \<open>k\<close>. The wrapper returns the trace of what it did
  (invocations and sleeps, in order) with its result. \<open>lastError\<close> is \<open>undefined\<close>
  until a catch assigns it; classifying \<open>undefined\<close> after the loop reads a property of
  \<open>undefined\<close>, which throws a TypeError.
\<close>

datatype retry_event = Invoke nat | Delay int

text \<open>\<open>IAIResponse\<close>, what a provider's \<open>sendRequest\<close> resolves with (content and
  confidence; the optional attachments are left out).\<close>

record IAIResponse =
  resp_content :: string
  resp_confidence :: real

definition isCancellationRequested :: "(nat \<Rightarrow> bool) option \<Rightarrow> nat \<Rightarrow> bool" where
  "isCancellationRequested token k = (case token of None \<Rightarrow> False | Some t \<Rightarrow> t k)"

definition typeError :: thrown where
  "typeError = Other \<lparr>err_code = None,
     err_message = Some ''Cannot read properties of undefined''\<rparr>"

function retry_loop ::
  "(nat \<Rightarrow> thrown + 'a) \<Rightarrow> (nat \<Rightarrow> bool) option \<Rightarrow> nat \<Rightarrow> nat \<Rightarrow> thrown option
     \<Rightarrow> retry_event list \<Rightarrow> retry_event list \<times> (thrown + 'a)" where
  "retry_loop operation token maxRetries attempt lastError tr =
     (if attempt < maxRetries then
        (if isCancellationRequested token attempt
         then (tr, Inl (AIErr (new_AIError TIMEOUT ''Operation cancelled'')))
         else
           (case operation attempt of
              Inr v \<Rightarrow> (tr @ [Invoke attempt], Inr v)
            | Inl error \<Rightarrow>
                (let aiError = handleError error in
                 if \<not> shouldRetry aiError \<or> attempt = maxRetries - 1
                 then (tr @ [Invoke attempt], Inl (AIErr aiError))
                 else retry_loop operation token maxRetries (Suc attempt) (Some error)
                        (tr @ [Invoke attempt, Delay (getRetryDelay aiError attempt)]))))
      else (tr, Inl (case lastError of
                       None \<Rightarrow> typeError
                     | Some e \<Rightarrow> AIErr (handleError e))))"
  by pat_completeness auto
termination
  by (relation "measure (\<lambda>(operation, token, maxRetries, attempt, lastError, tr).
                   maxRetries - attempt)") auto

declare retry_loop.simps [simp del]

definition executeWithRetry ::
  "(nat \<Rightarrow> thrown + 'a) \<Rightarrow> (nat \<Rightarrow> bool) option \<Rightarrow> nat
     \<Rightarrow> retry_event list \<times> (thrown + 'a)" where
  "executeWithRetry operation token maxRetries =
     retry_loop operation token maxRetries 0 None []"

text \<open>Observations on a trace: which invocations happened, and which sleeps.\<close>

fun attempts :: "retry_event list \<Rightarrow> nat list" where
  "attempts [] = []"
| "attempts (Invoke k # tr) = k # attempts tr"
| "attempts (Delay d # tr) = attempts tr"

fun sleeps :: "retry_event list \<Rightarrow> int list" where
  "sleeps [] = []"
| "sleeps (Invoke k # tr) = sleeps tr"
| "sleeps (Delay d # tr) = d # sleeps tr"

text \<open>Fixtures: a provider call that fails with \<open>AIError.timeout()\<close> each time it is
  made, and a token that is cancelled during the first attempt.\<close>

definition always_timeout :: "nat \<Rightarrow> thrown + IAIResponse" where
  "always_timeout k = Inl (AIErr (timeout NoDetails))"

definition cancelled_after_first :: "nat \<Rightarrow> bool" where
  "cancelled_after_first k = (1 \<le> k)"

section \<open>Model configuration registry (ModelConfigurationService)\<close>

text \<open>
  \<open>IModelConfiguration\<close>, with the fields the registry operations read or write
  (\<open>parameters\<close>, \<open>capabilities\<close> and \<open>metadata\<close> are carried along untouched by
  them and are left out). \<open>Partial<IModelConfiguration>\<close> has every field optional;
  for \<open>apiKey\<close>, itself optional, a present property may hold \<open>undefined\<close>.
\<close>

datatype model_type = Local | Cloud

record ModelConfiguration =
  cfg_id :: string
  cfg_name :: string
  cfg_type :: model_type
  cfg_provider :: string
  cfg_endpoint :: string
  cfg_apiKey :: "string option"
  cfg_model :: string
  isDefault :: bool
  enabled :: bool

record ConfigurationUpdates =
  upd_id :: "string option"
  upd_name :: "string option"
  upd_type :: "model_type option"
  upd_provider :: "string option"
  upd_endpoint :: "string option"
  upd_apiKey :: "string option option"
  upd_model :: "string option"
  upd_isDefault :: "bool option"
  upd_enabled :: "bool option"

text \<open>The object spread \<open>{ ...existing, ...updates }\<close>.\<close>

definition spread_updates :: "ModelConfiguration \<Rightarrow> ConfigurationUpdates \<Rightarrow> ModelConfiguration"
  where
  "spread_updates existing updates =
     \<lparr>cfg_id = (case upd_id updates of None \<Rightarrow> cfg_id existing | Some v \<Rightarrow> v),
      cfg_name = (case upd_name updates of None \<Rightarrow> cfg_name existing | Some v \<Rightarrow> v),
      cfg_type = (case upd_type updates of None \<Rightarrow> cfg_type existing | Some v \<Rightarrow> v),
      cfg_provider = (case upd_provider updates of None \<Rightarrow> cfg_provider existing | Some v \<Rightarrow> v),
      cfg_endpoint = (case upd_endpoint updates of None \<Rightarrow> cfg_endpoint existing | Some v \<Rightarrow> v),
      cfg_apiKey = (case upd_apiKey updates of None \<Rightarrow> cfg_apiKey existing | Some v \<Rightarrow> v),
      cfg_model = (case upd_model updates of None \<Rightarrow> cfg_model existing | Some v \<Rightarrow> v),
      isDefault = (case upd_isDefault updates of None \<Rightarrow> isDefault existing | Some v \<Rightarrow> v),
      enabled = (case upd_enabled updates of None \<Rightarrow> enabled existing | Some v \<Rightarrow> v)\<rparr>"

text \<open>
  The collaborators of one call, as that call finds them: whether \<open>new URL(endpoint)\<close>
  parses, what the connectivity probe \<open>testModelConnection\<close> answers (success flag and
  error text), and whether the secret store's \<open>set\<close>/\<open>delete\<close> promise rejects
  (and with what).
\<close>

record collaborators =
  urlParses :: "string \<Rightarrow> bool"
  testModelConnection :: "ModelConfiguration \<Rightarrow> bool \<times> string option"
  secretStoreFailure :: "raw_error option"

record IModelValidationResult =
  isValid :: bool
  validation_error :: "string option"

definition validateConfiguration ::
  "collaborators \<Rightarrow> ModelConfiguration \<Rightarrow> IModelValidationResult" where
  "validateConfiguration env config =
     (if cfg_id config = [] \<or> cfg_name config = [] \<or> cfg_endpoint config = []
           \<or> cfg_model config = []
      then \<lparr>isValid = False,
            validation_error = Some ''Missing required fields: id, name, endpoint, or model''\<rparr>
      else if \<not> urlParses env (cfg_endpoint config)
      then \<lparr>isValid = False, validation_error = Some ''Invalid endpoint URL''\<rparr>
      else \<lparr>isValid = fst (testModelConnection env config),
            validation_error = snd (testModelConnection env config)\<rparr>)"

text \<open>\<open>new AIError(CONFIGURATION_ERROR, validation.error || 'Invalid configuration')\<close>.\<close>

definition configurationError :: "IModelValidationResult \<Rightarrow> AIError" where
  "configurationError validation =
     new_AIError CONFIGURATION_ERROR
       (case validation_error validation of
          None \<Rightarrow> ''Invalid configuration''
        | Some m \<Rightarrow> if m = [] then ''Invalid configuration'' else m)"

datatype registry_event =
    DidAddModel ModelConfiguration
  | DidChangeConfiguration ModelConfiguration
  | DidRemoveModel string
  | DidChangeDefaultModel string

text \<open>
  The service's state. \<open>configurations\<close> is a JavaScript \<open>Map\<close>: an association list
  in insertion order, where \<open>Map.set\<close> on a present key replaces the value in place and
  on an absent key appends (\<open>AList.update\<close>), \<open>Map.delete\<close> is \<open>AList.delete\<close> and
  \<open>Map.get\<close> is \<open>map_of\<close>. The storage service holds the saved configuration array
  and the saved default id; the secret store holds the API keys. Fired events are logged.
  Stored configurations are values: no operation stores one object under two keys, so
  the in-place writes of \<open>setDefaultModel\<close> never reach a second entry.
\<close>

record registry =
  configurations :: "(string \<times> ModelConfiguration) list"
  defaultModelId :: "string option"
  storedConfigurations :: "ModelConfiguration list"
  storedDefaultModel :: "string option"
  secrets :: "string \<rightharpoonup> string"
  registry_events :: "registry_event list"

definition SECRET_KEY_PREFIX :: string where
  "SECRET_KEY_PREFIX = ''ai.apiKey.''"

definition getConfiguration :: "registry \<Rightarrow> string \<Rightarrow> ModelConfiguration option" where
  "getConfiguration r modelId = map_of (configurations r) modelId"

definition getAllConfigurations :: "registry \<Rightarrow> ModelConfiguration list" where
  "getAllConfigurations r = map snd (configurations r)"

definition saveConfigurations :: "registry \<Rightarrow> registry" where
  "saveConfigurations r = r\<lparr>storedConfigurations := map snd (configurations r)\<rparr>"

definition fire :: "registry_event \<Rightarrow> registry \<Rightarrow> registry" where
  "fire ev r = r\<lparr>registry_events := registry_events r @ [ev]\<rparr>"

text \<open>
  Each asynchronous operation returns what its promise settles with (\<open>None\<close>:
  resolved; \<open>Some x\<close>: rejected with \<open>x\<close>) and the state it leaves behind.
  \<open>storageService.store\<close> is synchronous and returns nothing, so
  \<open>saveConfigurations\<close> has no failing branch.
\<close>

text \<open>The loop of \<open>setDefaultModel\<close> over the entries: \<open>cfg.isDefault = id === modelId\<close>.\<close>

fun mark_default ::
  "string \<Rightarrow> (string \<times> ModelConfiguration) list \<Rightarrow> (string \<times> ModelConfiguration) list" where
  "mark_default modelId [] = []"
| "mark_default modelId ((k, cfg) # rest) =
     (k, cfg\<lparr>isDefault := (k = modelId)\<rparr>) # mark_default modelId rest"

definition setDefaultModel :: "string \<Rightarrow> registry \<Rightarrow> thrown option \<times> registry" where
  "setDefaultModel modelId r =
     (case map_of (configurations r) modelId of
        None \<Rightarrow> (Some (AIErr (modelNotFound modelId)), r)
      | Some config \<Rightarrow>
          (None,
           fire (DidChangeDefaultModel modelId)
             (saveConfigurations
               (r\<lparr>configurations := mark_default modelId (configurations r),
                  defaultModelId := Some modelId,
                  storedDefaultModel := Some modelId\<rparr>))))"

definition addConfiguration ::
  "collaborators \<Rightarrow> ModelConfiguration \<Rightarrow> registry \<Rightarrow> thrown option \<times> registry" where
  "addConfiguration env config r =
     (let validation = validateConfiguration env config in
      if \<not> isValid validation then (Some (AIErr (configurationError validation)), r)
      else
        (let keyed = (case cfg_apiKey config of None \<Rightarrow> False | Some k \<Rightarrow> k \<noteq> []) in
         if keyed \<and> secretStoreFailure env \<noteq> None
         then (Some (Other (the (secretStoreFailure env))), r)
         else
           (let r1 = (if keyed
                      then r\<lparr>secrets := (secrets r)
                               (SECRET_KEY_PREFIX @ cfg_id config \<mapsto> the (cfg_apiKey config))\<rparr>
                      else r);
                config1 = (if keyed then config\<lparr>cfg_apiKey := None\<rparr> else config);
                r2 = fire (DidAddModel config1)
                       (saveConfigurations
                         (r1\<lparr>configurations :=
                               AList.update (cfg_id config1) config1 (configurations r1)\<rparr>))
            in if isDefault config1 \<or> length (configurations r2) = 1
               then setDefaultModel (cfg_id config1) r2
               else (None, r2))))"

definition updateConfiguration ::
  "collaborators \<Rightarrow> string \<Rightarrow> ConfigurationUpdates \<Rightarrow> registry \<Rightarrow> thrown option \<times> registry"
  where
  "updateConfiguration env modelId updates r =
     (case map_of (configurations r) modelId of
        None \<Rightarrow> (Some (AIErr (modelNotFound modelId)), r)
      | Some existing \<Rightarrow>
          (let updated = spread_updates existing updates;
               validation = validateConfiguration env updated
           in if \<not> isValid validation then (Some (AIErr (configurationError validation)), r)
              else
                (case upd_apiKey updates of
                   Some (Some k) \<Rightarrow>
                     (if secretStoreFailure env \<noteq> None
                      then (Some (Other (the (secretStoreFailure env))), r)
                      else
                        (None,
                         fire (DidChangeConfiguration (updated\<lparr>cfg_apiKey := None\<rparr>))
                           (saveConfigurations
                             (r\<lparr>secrets :=
                                   (if k \<noteq> []
                                    then (secrets r)(SECRET_KEY_PREFIX @ modelId \<mapsto> k)
                                    else (secrets r)(SECRET_KEY_PREFIX @ modelId := None)),
                                configurations :=
                                   AList.update modelId (updated\<lparr>cfg_apiKey := None\<rparr>)
                                     (configurations r)\<rparr>))))
                 | _ \<Rightarrow>
                     (None,
                      fire (DidChangeConfiguration updated)
                        (saveConfigurations
                          (r\<lparr>configurations :=
                                AList.update modelId updated (configurations r)\<rparr>))))))"

definition removeConfiguration ::
  "collaborators \<Rightarrow> string \<Rightarrow> registry \<Rightarrow> thrown option \<times> registry" where
  "removeConfiguration env modelId r =
     (case map_of (configurations r) modelId of
        None \<Rightarrow> (None, r)
      | Some config \<Rightarrow>
          (if secretStoreFailure env \<noteq> None
           then (Some (Other (the (secretStoreFailure env))), r)
           else
             (let r1 = fire (DidRemoveModel modelId)
                         (saveConfigurations
                           (r\<lparr>secrets := (secrets r)(SECRET_KEY_PREFIX @ modelId := None),
                              configurations := AList.delete modelId (configurations r)\<rparr>))
              in if defaultModelId r1 = Some modelId
                 then (case getAllConfigurations r1 of
                         first # rest \<Rightarrow> setDefaultModel (cfg_id first) r1
                       | [] \<Rightarrow> (None, r1\<lparr>defaultModelId := None, storedDefaultModel := None\<rparr>))
                 else (None, r1))))"

definition getDefaultModel :: "registry \<Rightarrow> ModelConfiguration option" where
  "getDefaultModel r =
     (case defaultModelId r of
        None \<Rightarrow> None
      | Some d \<Rightarrow> if d = [] then None else map_of (configurations r) d)"

text \<open>
  A registry freshly constructed over empty storage, and the number of stored
  configurations flagged as default.
\<close>

definition empty_registry :: registry where
  "empty_registry =
     \<lparr>configurations = [], defaultModelId = None, storedConfigurations = [],
      storedDefaultModel = None, secrets = Map.empty, registry_events = []\<rparr>"

fun count_defaults :: "(string \<times> ModelConfiguration) list \<Rightarrow> nat" where
  "count_defaults [] = 0"
| "count_defaults ((k, cfg) # rest) = (if isDefault cfg then 1 else 0) + count_defaults rest"

definition default_count :: "registry \<Rightarrow> nat" where
  "default_count r = count_defaults (configurations r)"

definition at_most_one_default :: "registry \<Rightarrow> bool" where
  "at_most_one_default r = (default_count r \<le> 1)"

text \<open>The association list represents a \<open>Map\<close>: no key occurs twice.\<close>

definition wf_registry :: "registry \<Rightarrow> bool" where
  "wf_registry r = distinct (map fst (configurations r))"

text \<open>Sequences of registry operations, each with the collaborators it meets.\<close>

datatype registry_op =
    AddConfiguration collaborators ModelConfiguration
  | RemoveConfiguration collaborators string
  | SetDefaultModel string

fun apply_op :: "registry_op \<Rightarrow> registry \<Rightarrow> thrown option \<times> registry" where
  "apply_op (AddConfiguration env config) r = addConfiguration env config r"
| "apply_op (RemoveConfiguration env modelId) r = removeConfiguration env modelId r"
| "apply_op (SetDefaultModel modelId) r = setDefaultModel modelId r"

text \<open>A failed operation does not stop the caller from issuing the next one.\<close>

fun run_ops :: "registry_op list \<Rightarrow> registry \<Rightarrow> registry" where
  "run_ops [] r = r"
| "run_ops (op # ops) r = run_ops ops (snd (apply_op op r))"

definition registry_inv :: "registry \<Rightarrow> bool" where
  "registry_inv r = (wf_registry r \<and> at_most_one_default r)"

text \<open>Test fixtures: collaborators that accept everything, and a plain configuration.\<close>

definition env_ok :: collaborators where
  "env_ok = \<lparr>urlParses = (\<lambda>u. True), testModelConnection = (\<lambda>c. (True, None)),
     secretStoreFailure = None\<rparr>"

definition sample_config :: "string \<Rightarrow> bool \<Rightarrow> ModelConfiguration" where
  "sample_config i d =
     \<lparr>cfg_id = i, cfg_name = ''Model '' @ i, cfg_type = Local, cfg_provider = ''ollama'',
      cfg_endpoint = ''http://localhost:11434/api/generate'', cfg_apiKey = None,
      cfg_model = ''llama3.1'', isDefault = d, enabled = True\<rparr>"

definition env_offline :: collaborators where
  "env_offline = \<lparr>urlParses = (\<lambda>u. True),
     testModelConnection = (\<lambda>c. (False, Some ''Connection test failed'')),
     secretStoreFailure = None\<rparr>"

definition sample_ops :: "registry_op list" where
  "sample_ops =
     [AddConfiguration env_ok (sample_config ''a'' True),
      AddConfiguration env_ok (sample_config ''b'' True),
      AddConfiguration env_offline (sample_config ''c'' True),
      SetDefaultModel ''zzz'',
      SetDefaultModel ''a'',
      RemoveConfiguration env_ok ''a'']"

definition registry_ab :: registry where
  "registry_ab =
     run_ops [AddConfiguration env_ok (sample_config ''a'' False),
              AddConfiguration env_ok (sample_config ''b'' False)] empty_registry"

definition only_isDefault :: "bool \<Rightarrow> ConfigurationUpdates" where
  "only_isDefault d =
     \<lparr>upd_id = None, upd_name = None, upd_type = None, upd_provider = None,
      upd_endpoint = None, upd_apiKey = None, upd_model = None, upd_isDefault = Some d,
      upd_enabled = None\<rparr>"

section \<open>The service manager (AIServiceManager)\<close>

text \<open>
  The manager's state: the ids of the registered providers (the keys of its
  \<open>providers\<close> map), the active model, the events it fired and the provider requests
  it issued (the id of the provider asked, one entry per \<open>sendRequest\<close>).
\<close>

record ICompletionItem =
  item_text :: string
  insertText :: string
  item_kind :: nat
  item_confidence :: real

datatype manager_event =
    DidChangeActiveModel string
  | DidReceiveResponse IAIResponse
  | DidError AIError

record manager =
  providers :: "string set"
  activeModelId :: "string option"
  manager_events :: "manager_event list"
  provider_requests :: "string list"

definition providerNotAvailable :: "string \<Rightarrow> AIError" where
  "providerNotAvailable p =
     new_AIError SERVICE_UNAVAILABLE (''Provider '' @ p @ '' not available'')"

definition switchModel :: "registry \<Rightarrow> string \<Rightarrow> manager \<Rightarrow> thrown option \<times> manager" where
  "switchModel reg modelId m =
     (case getConfiguration reg modelId of
        None \<Rightarrow> (Some (AIErr (modelNotFound modelId)), m)
      | Some config \<Rightarrow>
          if cfg_provider config \<notin> providers m
          then (Some (AIErr (providerNotAvailable (cfg_provider config))), m)
          else (None, m\<lparr>activeModelId := Some modelId,
                         manager_events := manager_events m @ [DidChangeActiveModel modelId]\<rparr>))"

text \<open>\<open>getActiveProvider\<close>; \<open>!this.activeModelId\<close> holds for \<open>undefined\<close> and for
  the empty string. It returns the id of the provider found.\<close>

definition resolveProvider :: "registry \<Rightarrow> string \<Rightarrow> manager \<Rightarrow> thrown + string" where
  "resolveProvider reg active m =
     (case getConfiguration reg active of
        None \<Rightarrow> Inl (AIErr (modelNotFound active))
      | Some config \<Rightarrow>
          if cfg_provider config \<notin> providers m
          then Inl (AIErr (providerNotAvailable (cfg_provider config)))
          else Inr (cfg_provider config))"

definition getActiveProvider :: "registry \<Rightarrow> manager \<Rightarrow> (thrown + string) \<times> manager" where
  "getActiveProvider reg m =
     (if activeModelId m = None \<or> activeModelId m = Some []
      then
        (case getDefaultModel reg of
           Some defaultModel \<Rightarrow>
             (case switchModel reg (cfg_id defaultModel) m of
                (Some e, m1) \<Rightarrow> (Inl e, m1)
              | (None, m1) \<Rightarrow> (resolveProvider reg (cfg_id defaultModel) m1, m1))
         | None \<Rightarrow>
             (Inl (AIErr (new_AIError CONFIGURATION_ERROR ''No active model configured'')), m))
      else (resolveProvider reg (the (activeModelId m)) m, m))"

definition parseCompletionResponse :: "IAIResponse \<Rightarrow> ICompletionItem list" where
  "parseCompletionResponse response =
     [\<lparr>item_text = resp_content response, insertText = resp_content response,
       item_kind = 1, item_confidence = resp_confidence response\<rparr>]"

text \<open>
  \<open>getCodeCompletion\<close>. Its collaborators: \<open>extractContext\<close>, the awaited outcome of
  \<open>contextProvider.extractContext()\<close>; \<open>sendRequest k\<close>, the outcome of the provider's
  \<open>sendRequest\<close> in retry iteration \<open>k\<close>; the optional token. The call settles with a
  completion list or rejects; provider resolution and context extraction stand before
  the \<open>try\<close> block.
\<close>

definition getCodeCompletion ::
  "registry \<Rightarrow> (thrown + 'c) \<Rightarrow> (nat \<Rightarrow> thrown + IAIResponse) \<Rightarrow> (nat \<Rightarrow> bool) option
     \<Rightarrow> manager \<Rightarrow> (thrown + ICompletionItem list) \<times> manager" where
  "getCodeCompletion reg extractContext sendRequest token m =
     (case getActiveProvider reg m of
        (Inl e, m1) \<Rightarrow> (Inl e, m1)
      | (Inr provider, m1) \<Rightarrow>
          (case extractContext of
             Inl e \<Rightarrow> (Inl e, m1)
           | Inr codeContext \<Rightarrow>
               (let run = executeWithRetry sendRequest token 3;
                    m2 = m1\<lparr>provider_requests :=
                             provider_requests m1 @ map (\<lambda>k. provider) (attempts (fst run))\<rparr>
                in case snd run of
                     Inr response \<Rightarrow> (Inr (parseCompletionResponse response), m2)
                   | Inl error \<Rightarrow>
                       (Inr [], m2\<lparr>manager_events :=
                                    manager_events m2 @ [DidError (handleError error)]\<rparr>))))"

text \<open>Fixtures: a registry holding one configuration \<open>a\<close> and a manager that has the
  provider \<open>ollama\<close> registered and \<open>a\<close> active.\<close>

definition registry_a :: registry where
  "registry_a = run_ops [AddConfiguration env_ok (sample_config ''a'' False)] empty_registry"

definition manager_a :: manager where
  "manager_a = \<lparr>providers = {''ollama''}, activeModelId = Some ''a'',
     manager_events = [], provider_requests = []\<rparr>"

text \<open>Further fixtures: a token that is cancelled from the start, a context
  extraction that rejects and one that resolves.\<close>

definition always_cancelled :: "nat \<Rightarrow> bool" where
  "always_cancelled k = True"

definition context_unavailable :: "thrown + unit" where
  "context_unavailable =
     Inl (Other \<lparr>err_code = None, err_message = Some ''No active editor''\<rparr>)"

definition context_ready :: "thrown + unit" where
  "context_ready = Inr ()"

section \<open>Conversation memory (AIService.executeConversationFlow)\<close>

datatype role = User | Assistant | System

record IAIMessage =
  role :: role
  content :: string

record IChatResponse =
  chat_content :: string
  chat_model :: string
  chat_provider :: string

record flow_context =
  maxHistory :: "int option"
  systemPrompt :: "string option"

text \<open>\<open>Array.prototype.slice(start)\<close>: a negative start counts from the end.\<close>

definition js_slice_from :: "int \<Rightarrow> 'a list \<Rightarrow> 'a list" where
  "js_slice_from start xs =
     (if start < 0 then drop (nat (max 0 (int (length xs) + start))) xs
      else drop (nat start) xs)"

text \<open>
  \<open>executeConversationFlow(conversationId, message, context?)\<close>; the parameter
  \<open>message\<close> is called \<open>text\<close> here. \<open>chat\<close> is the
  awaited outcome of \<open>this.chat(history)\<close> for the history sent. The two \<open>push\<close>
  calls before the trim write to the array held by the map when there is one, so a
  rejected \<open>chat\<close> leaves them behind; \<open>||\<close> replaces \<open>0\<close> and the empty string by
  the defaults.
\<close>

definition executeConversationFlow ::
  "(IAIMessage list \<Rightarrow> thrown + IChatResponse) \<Rightarrow> string \<Rightarrow> string \<Rightarrow> flow_context option
     \<Rightarrow> (string \<rightharpoonup> IAIMessage list) \<Rightarrow> (thrown + string) \<times> (string \<rightharpoonup> IAIMessage list)"
  where
  "executeConversationFlow chat conversationId text context conversationMemory =
     (let maxH = (case context of
                    None \<Rightarrow> 10
                  | Some c \<Rightarrow> (case maxHistory c of
                                None \<Rightarrow> 10
                              | Some n \<Rightarrow> if n = 0 then 10 else n));
          sysP = (case context of
                    None \<Rightarrow> ''You are a helpful AI assistant with conversation memory.''
                  | Some c \<Rightarrow> (case systemPrompt c of
                                None \<Rightarrow> ''You are a helpful AI assistant with conversation memory.''
                              | Some p \<Rightarrow>
                                  if p = []
                                  then ''You are a helpful AI assistant with conversation memory.''
                                  else p));
          stored = conversationMemory conversationId;
          h0 = (case stored of None \<Rightarrow> [] | Some h \<Rightarrow> h);
          h1 = (if length h0 = 0 then h0 @ [\<lparr>role = System, content = sysP\<rparr>] else h0);
          h2 = h1 @ [\<lparr>role = User, content = text\<rparr>];
          mem1 = (case stored of
                    None \<Rightarrow> conversationMemory
                  | Some h \<Rightarrow> conversationMemory(conversationId \<mapsto> h2));
          history = (if int (length h2) > maxH + 1
                     then (case h2 of
                             [] \<Rightarrow> h2
                           | first # rest \<Rightarrow> first # js_slice_from (- maxH) h2)
                     else h2)
      in case chat history of
           Inl e \<Rightarrow> (Inl e, mem1)
         | Inr response \<Rightarrow>
             (Inr (chat_content response),
              mem1(conversationId \<mapsto>
                     history @ [\<lparr>role = Assistant, content = chat_content response\<rparr>])))"

text \<open>Fixtures: a chat collaborator that always answers \<open>reply\<close>, and a stored
  conversation of a system message and four prior turns.\<close>

definition chat_reply :: "IAIMessage list \<Rightarrow> thrown + IChatResponse" where
  "chat_reply history =
     Inr \<lparr>chat_content = ''reply'', chat_model = ''gpt-4'', chat_provider = ''openai''\<rparr>"

definition sys_msg :: IAIMessage where
  "sys_msg = \<lparr>role = System, content = ''You are a helpful AI assistant with conversation memory.''\<rparr>"

definition five_messages :: "IAIMessage list" where
  "five_messages =
     [sys_msg,
      \<lparr>role = User, content = ''q1''\<rparr>, \<lparr>role = Assistant, content = ''a1''\<rparr>,
      \<lparr>role = User, content = ''q2''\<rparr>, \<lparr>role = Assistant, content = ''a2''\<rparr>]"

section \<open>Streaming in the local-model adapter (LocalModelService)\<close>

text \<open>
  The text of a stream is a JavaScript string, a sequence of UTF-16 code units, each
  a natural number; \<open>units\<close> turns an ASCII literal into its code units.
  \<open>String.prototype.trim\<close> removes the white space and the line terminators of
  ECMAScript at both ends: TAB, LF, VT, FF, CR, SP, NBSP, U+1680, U+2000 to U+200A,
  U+2028, U+2029, U+202F, U+205F, U+3000 and U+FEFF.
\<close>

type_synonym js_string = "nat list"

definition units :: "string \<Rightarrow> js_string" where
  "units s = map of_char s"

definition js_whitespace :: "nat \<Rightarrow> bool" where
  "js_whitespace c =
     (c \<in> {0x09, 0x0A, 0x0B, 0x0C, 0x0D, 0x20, 0xA0, 0x1680}
      \<or> (0x2000 \<le> c \<and> c \<le> 0x200A)
      \<or> c \<in> {0x2028, 0x2029, 0x202F, 0x205F, 0x3000, 0xFEFF})"

definition trim :: "js_string \<Rightarrow> js_string" where
  "trim s = rev (dropWhile js_whitespace (rev (dropWhile js_whitespace s)))"

text \<open>\<open>text.split('\<bsol>n')\<close>: the pieces between line feeds, empty ones included.\<close>

fun split_lines :: "js_string \<Rightarrow> js_string list" where
  "split_lines [] = [[]]"
| "split_lines (c # cs) =
     (if c = 0x0A then [] # split_lines cs
      else (case split_lines cs of
              [] \<Rightarrow> [[c]]
            | l # ls \<Rightarrow> (c # l) # ls))"

text \<open>\<open>line.replace(/^data: /, '')\<close>.\<close>

definition strip_data_prefix :: "js_string \<Rightarrow> js_string" where
  "strip_data_prefix line = (if take 6 line = units ''data: '' then drop 6 line else line)"

text \<open>The lines one decoded transport chunk contributes to the iterator
  (\<open>makeStreamingRequest\<close>, the body of the inner generator).\<close>

definition chunk_lines :: "js_string \<Rightarrow> js_string list" where
  "chunk_lines text =
     filter (\<lambda>line. line \<noteq> [] \<and> line \<noteq> units ''[DONE]'')
       (map (\<lambda>line. trim (strip_data_prefix line))
         (filter (\<lambda>line. trim line \<noteq> []) (split_lines text)))"

text \<open>
  The HTTP response of the request service: status, status text, and the stream when
  there is one, as the decoded texts of the transport chunks it delivers, followed or
  not by a transport failure.
\<close>

record http_response =
  statusCode :: nat
  statusMessage :: string
  stream :: "(js_string list \<times> thrown option) option"

fun show_nat :: "nat \<Rightarrow> string" where
  "show_nat n =
     (if n < 10 then [char_of (48 + n)]
      else show_nat (n div 10) @ [char_of (48 + n mod 10)])"

declare show_nat.simps [simp del]

definition makeStreamingRequest ::
  "thrown + http_response \<Rightarrow> thrown + (js_string list \<times> thrown option)" where
  "makeStreamingRequest request =
     (case request of
        Inl e \<Rightarrow> Inl e
      | Inr response \<Rightarrow>
          if 200 \<le> statusCode response \<and> statusCode response < 300
          then (case stream response of
                  None \<Rightarrow> Inl (AIErr (new_AIError INVALID_RESPONSE ''No stream in response''))
                | Some (chunks, failure) \<Rightarrow> Inr (concat (map chunk_lines chunks), failure))
          else Inl (AIErr (new_AIError INVALID_RESPONSE
                 (''Streaming request failed with status '' @ show_nat (statusCode response)
                    @ '': '' @ statusMessage response))))"

text \<open>
  Parsed JSON values, and the provider's \<open>streamingResponseFormatter\<close>
  (\<open>None\<close>: it throws, as reading a property of \<open>null\<close> does). The llama.cpp
  formatter is \<open>chunk.content || null\<close>.
\<close>

datatype json =
    JNull | JBool bool | JNumber int | JString js_string
  | JArray "json list" | JObject "(js_string \<times> json) list"

fun js_truthy :: "json \<Rightarrow> bool" where
  "js_truthy JNull = False"
| "js_truthy (JBool b) = b"
| "js_truthy (JNumber n) = (n \<noteq> 0)"
| "js_truthy (JString s) = (s \<noteq> [])"
| "js_truthy (JArray xs) = True"
| "js_truthy (JObject fs) = True"

fun llamacpp_streamingResponseFormatter :: "json \<Rightarrow> json option" where
  "llamacpp_streamingResponseFormatter JNull = None"
| "llamacpp_streamingResponseFormatter (JObject fs) =
     (case map_of fs (units ''content'') of
        None \<Rightarrow> Some JNull
      | Some v \<Rightarrow> if js_truthy v then Some v else Some JNull)"
| "llamacpp_streamingResponseFormatter chunk = Some JNull"



text \<open>
  The adapter as \<open>sendStreamRequest\<close> meets it: its name and endpoint, the provider's
  \<open>streamingSupported\<close> flag and formatter, the value of its field \<open>isHealthy\<close>, what
  the method \<open>isHealthy()\<close> of the class would return if it were called, and the
  outcome of the HTTP request.

  The class declares a field \<open>isHealthy\<close> (\<open>private isHealthy = false\<close>, assigned a
  boolean by \<open>checkHealth\<close>) and a method of the same name. The field is an own
  property of the instance, the method a property of the prototype, and reading
  \<open>this.isHealthy\<close> finds the own property first. So the call \<open>this.isHealthy()\<close>
  in \<open>ensureHealthy\<close> applies a boolean and throws a TypeError, whatever the field
  holds. \<open>sendStreamRequest\<close> awaits \<open>ensureHealthy\<close> before its \<open>try\<close> block.
\<close>

record adapter =
  adapter_name :: string
  adapter_endpoint :: string
  streamingSupported :: bool
  streamingResponseFormatter :: "json \<Rightarrow> json option"
  isHealthy :: bool
  isHealthy_method :: "thrown + bool"
  request :: "thrown + http_response"








text \<open>
  Fixtures. The transport text is an SSE fragment whose first line is the sentinel and
  whose second line carries content; \<open>parse_content_x\<close> agrees with \<open>JSON.parse\<close> on the
  one line of it that would reach the parser. The adapter is a llama.cpp adapter whose
  last health check succeeded.
\<close>

definition content_x_line :: js_string where
  "content_x_line =
     units ([CHR 0x7B, CHR 0x22] @ ''content'' @ [CHR 0x22, CHR 0x3A, CHR 0x22] @ ''x''
              @ [CHR 0x22, CHR 0x7D])"

definition done_then_content :: js_string where
  "done_then_content =
     units ''data: [DONE]'' @ [0x0A] @ units ''data: '' @ content_x_line @ [0x0A]"


definition llamacpp_adapter :: "js_string list \<Rightarrow> adapter" where
  "llamacpp_adapter chunks =
     \<lparr>adapter_name = ''Llama.cpp'', adapter_endpoint = ''http://localhost:8080'',
      streamingSupported = True,
      streamingResponseFormatter = llamacpp_streamingResponseFormatter,
      isHealthy = True, isHealthy_method = Inr True,
      request = Inr \<lparr>statusCode = 200, statusMessage = ''OK'',
                      stream = Some (chunks, None)\<rparr>\<rparr>"

section \<open>The in-memory vector store (MemoryVectorStore)\<close>

text \<open>
  Numbers are IEEE 754 binary64 values: a finite value is the real it denotes, next to
  the two infinities and \<open>NaN\<close>. The sign of a zero is not kept: the comparisons and
  sums below do not tell the two zeros apart, and the one divisor that can be zero,
  the product of two square roots, is never the negative zero.

  \<open>round64\<close> is the rounding every operation ends with, to nearest with ties to
  even: a real of magnitude at least \<open>2^1024 - 2^970\<close> rounds to an infinity; any other
  rounds to the nearest multiple of the unit in the last place of its binade, the
  binades below \<open>2^-1022\<close> sharing the unit \<open>2^-1074\<close> (gradual underflow).
\<close>

datatype jsnum = Fin real | PosInf | NegInf | NaN

definition round_half_even :: "real \<Rightarrow> int" where
  "round_half_even y =
     (if y - of_int \<lfloor>y\<rfloor> < 1 / 2 then \<lfloor>y\<rfloor>
      else if 1 / 2 < y - of_int \<lfloor>y\<rfloor> then \<lfloor>y\<rfloor> + 1
      else if even \<lfloor>y\<rfloor> then \<lfloor>y\<rfloor> else \<lfloor>y\<rfloor> + 1)"

definition binade :: "real \<Rightarrow> int" where
  "binade x = max \<lfloor>log 2 \<bar>x\<bar>\<rfloor> (- 1022)"

definition ulp :: "real \<Rightarrow> real" where
  "ulp x = 2 powi (binade x - 52)"

definition round64 :: "real \<Rightarrow> jsnum" where
  "round64 x =
     (if x = 0 then Fin 0
      else if 2 ^ 1024 - 2 ^ 970 \<le> \<bar>x\<bar> then (if 0 < x then PosInf else NegInf)
      else Fin (of_int (round_half_even (x / ulp x)) * ulp x))"

text \<open>The sign of a number: \<open>None\<close> for \<open>NaN\<close>.\<close>

fun js_sign :: "jsnum \<Rightarrow> real option" where
  "js_sign (Fin x) = Some (sgn x)"
| "js_sign PosInf = Some 1"
| "js_sign NegInf = Some (- 1)"
| "js_sign NaN = None"

text \<open>\<open>x * y\<close>: the rounded product of two finite numbers; with an infinity, the
  infinity of the product's sign, and \<open>NaN\<close> for an infinity times zero.\<close>

fun js_times :: "jsnum \<Rightarrow> jsnum \<Rightarrow> jsnum" where
  "js_times (Fin x) (Fin y) = round64 (x * y)"
| "js_times x y =
     (case (js_sign x, js_sign y) of
        (Some s, Some t) \<Rightarrow>
          if 0 < s * t then PosInf else if s * t < 0 then NegInf else NaN
      | _ \<Rightarrow> NaN)"

fun js_plus :: "jsnum \<Rightarrow> jsnum \<Rightarrow> jsnum" where
  "js_plus (Fin x) (Fin y) = round64 (x + y)"
| "js_plus NaN y = NaN"
| "js_plus x NaN = NaN"
| "js_plus PosInf NegInf = NaN"
| "js_plus NegInf PosInf = NaN"
| "js_plus PosInf y = PosInf"
| "js_plus NegInf y = NegInf"
| "js_plus x PosInf = PosInf"
| "js_plus x NegInf = NegInf"

fun js_negate :: "jsnum \<Rightarrow> jsnum" where
  "js_negate (Fin x) = Fin (- x)"
| "js_negate PosInf = NegInf"
| "js_negate NegInf = PosInf"
| "js_negate NaN = NaN"

definition js_minus :: "jsnum \<Rightarrow> jsnum \<Rightarrow> jsnum" where
  "js_minus x y = js_plus x (js_negate y)"

text \<open>\<open>x / y\<close>, a zero divisor being the positive zero.\<close>

fun js_div :: "jsnum \<Rightarrow> jsnum \<Rightarrow> jsnum" where
  "js_div (Fin x) (Fin y) =
     (if y \<noteq> 0 then round64 (x / y)
      else if 0 < x then PosInf else if x < 0 then NegInf else NaN)"
| "js_div (Fin x) PosInf = Fin 0"
| "js_div (Fin x) NegInf = Fin 0"
| "js_div PosInf (Fin y) = (if 0 \<le> y then PosInf else NegInf)"
| "js_div NegInf (Fin y) = (if 0 \<le> y then NegInf else PosInf)"
| "js_div PosInf PosInf = NaN"
| "js_div PosInf NegInf = NaN"
| "js_div NegInf PosInf = NaN"
| "js_div NegInf NegInf = NaN"
| "js_div NaN y = NaN"
| "js_div x NaN = NaN"

text \<open>\<open>Math.sqrt\<close>, correctly rounded.\<close>

fun js_sqrt :: "jsnum \<Rightarrow> jsnum" where
  "js_sqrt (Fin x) = (if x < 0 then NaN else round64 (sqrt x))"
| "js_sqrt PosInf = PosInf"
| "js_sqrt NegInf = NaN"
| "js_sqrt NaN = NaN"

fun js_positive :: "jsnum \<Rightarrow> bool" where
  "js_positive (Fin x) = (0 < x)"
| "js_positive PosInf = True"
| "js_positive NegInf = False"
| "js_positive NaN = False"

text \<open>\<open>x >= y\<close> and \<open>x >= 0\<close> on numbers (false when one is \<open>NaN\<close>), and the
  grid of the doubles: every finite double is an integer multiple of \<open>2^-1074\<close>.\<close>

fun js_ge :: "jsnum \<Rightarrow> jsnum \<Rightarrow> bool" where
  "js_ge NaN y = False"
| "js_ge x NaN = False"
| "js_ge PosInf y = True"
| "js_ge x NegInf = True"
| "js_ge (Fin x) (Fin y) = (y \<le> x)"
| "js_ge x y = False"

fun js_nonneg :: "jsnum \<Rightarrow> bool" where
  "js_nonneg (Fin r) = (0 \<le> r)"
| "js_nonneg PosInf = True"
| "js_nonneg y = False"

fun on_grid :: "jsnum \<Rightarrow> bool" where
  "on_grid (Fin r) = (r * 2 ^ 1074 \<in> \<int>)"
| "on_grid y = True"

text \<open>
  \<open>ICategorizedContext\<close> and \<open>ISemanticSearchResult\<close>, with the fields the searches
  compute with (category, metadata, relationships and the explanation text are left
  out). The store's \<open>documents\<close> is a \<open>Map\<close>, an association list in insertion order.
  The entries of an embedding are finite numbers; a weight is any number.
\<close>

record ICategorizedContext =
  doc_content :: js_string
  doc_embedding :: "real list"

record ISemanticSearchResult =
  res_id :: string
  res_content :: js_string
  score :: jsnum
  res_embedding :: "real list"

record weights =
  text_weight :: jsnum
  semantic_weight :: jsnum

text \<open>The loop of \<open>cosineSimilarity\<close>, run on vectors of equal length: the three
  accumulators \<open>dotProduct\<close>, \<open>normA\<close>, \<open>normB\<close>.\<close>

fun cosine_sums ::
  "real list \<Rightarrow> real list \<Rightarrow> jsnum \<times> jsnum \<times> jsnum \<Rightarrow> jsnum \<times> jsnum \<times> jsnum" where
  "cosine_sums (x # xs) (y # ys) (dotProduct, normA, normB) =
     cosine_sums xs ys
       (js_plus dotProduct (js_times (Fin x) (Fin y)),
        js_plus normA (js_times (Fin x) (Fin x)),
        js_plus normB (js_times (Fin y) (Fin y)))"
| "cosine_sums xs ys acc = acc"

definition cosineSimilarity :: "real list \<Rightarrow> real list \<Rightarrow> jsnum" where
  "cosineSimilarity a b =
     (if length a \<noteq> length b then Fin 0
      else (case cosine_sums a b (Fin 0, Fin 0, Fin 0) of
              (dotProduct, normA, normB) \<Rightarrow>
                js_div dotProduct (js_times (js_sqrt normA) (js_sqrt normB))))"

text \<open>
  \<open>results.sort((a, b) => b.score - a.score)\<close>: a stable sort; \<open>a\<close> moves behind
  \<open>b\<close> exactly when the comparator is positive, and a \<open>NaN\<close> comparator counts as
  0. Written as a stable insertion sort; with a comparator that is not a consistent
  order (scores that are \<open>NaN\<close> among others) JavaScript leaves the order to the
  implementation.
\<close>

definition comparator :: "ISemanticSearchResult \<Rightarrow> ISemanticSearchResult \<Rightarrow> jsnum" where
  "comparator a b = js_minus (score b) (score a)"

fun insert_by_score ::
  "ISemanticSearchResult \<Rightarrow> ISemanticSearchResult list \<Rightarrow> ISemanticSearchResult list" where
  "insert_by_score a [] = [a]"
| "insert_by_score a (b # rest) =
     (if js_positive (comparator a b) then b # insert_by_score a rest else a # b # rest)"

fun sort_by_score :: "ISemanticSearchResult list \<Rightarrow> ISemanticSearchResult list" where
  "sort_by_score [] = []"
| "sort_by_score (a # rest) = insert_by_score a (sort_by_score rest)"

text \<open>\<open>Array.prototype.slice(0, end)\<close>: a negative end counts from the end.\<close>

definition js_slice_to :: "int \<Rightarrow> 'a list \<Rightarrow> 'a list" where
  "js_slice_to end' xs =
     (if end' < 0 then take (nat (max 0 (int (length xs) + end'))) xs
      else take (nat end') xs)"

text \<open>\<open>String.prototype.includes\<close>.\<close>

fun string_includes :: "js_string \<Rightarrow> js_string \<Rightarrow> bool" where
  "string_includes [] needle = (needle = [])"
| "string_includes (c # cs) needle =
     (take (length needle) (c # cs) = needle \<or> string_includes cs needle)"

text \<open>
  \<open>search\<close>. \<open>String.prototype.toLowerCase\<close> is the parameter \<open>toLowerCase\<close>: its
  Unicode case mapping is not written out. The score is the literal \<open>0.8\<close>, the double
  nearest to 8/10.
\<close>

definition search ::
  "(js_string \<Rightarrow> js_string) \<Rightarrow> (string \<times> ICategorizedContext) list \<Rightarrow> js_string \<Rightarrow> int
     \<Rightarrow> ISemanticSearchResult list" where
  "search toLowerCase documents query maxResults =
     js_slice_to maxResults
       (map (\<lambda>(k, doc). \<lparr>res_id = k, res_content = doc_content doc, score = round64 (8 / 10),
                           res_embedding = doc_embedding doc\<rparr>)
         (filter (\<lambda>(k, doc). string_includes (toLowerCase (doc_content doc)) (toLowerCase query))
            documents))"

definition similaritySearch ::
  "(string \<times> ICategorizedContext) list \<Rightarrow> real list \<Rightarrow> int \<Rightarrow> ISemanticSearchResult list" where
  "similaritySearch documents embedding topK =
     js_slice_to topK
       (sort_by_score
         (map (\<lambda>(k, doc). \<lparr>res_id = k, res_content = doc_content doc,
                             score = cosineSimilarity embedding (doc_embedding doc),
                             res_embedding = doc_embedding doc\<rparr>)
            documents))"

text \<open>
  The merge of \<open>hybridSearch\<close> (``Combine and rerank results''): the map \<open>combined\<close>
  after the text results, then after the semantic results, then its values sorted.
\<close>

fun combine_text ::
  "weights \<Rightarrow> ISemanticSearchResult list \<Rightarrow> (string \<times> ISemanticSearchResult) list
     \<Rightarrow> (string \<times> ISemanticSearchResult) list" where
  "combine_text w [] combined = combined"
| "combine_text w (result # rest) combined =
     combine_text w rest
       (AList.update (res_id result)
          (result\<lparr>score := js_times (score result) (text_weight w)\<rparr>) combined)"

fun combine_semantic ::
  "weights \<Rightarrow> ISemanticSearchResult list \<Rightarrow> (string \<times> ISemanticSearchResult) list
     \<Rightarrow> (string \<times> ISemanticSearchResult) list" where
  "combine_semantic w [] combined = combined"
| "combine_semantic w (result # rest) combined =
     combine_semantic w rest
       (case map_of combined (res_id result) of
          Some existing \<Rightarrow>
            AList.update (res_id result)
              (existing\<lparr>score := js_plus (score existing)
                                    (js_times (score result) (semantic_weight w))\<rparr>)
              combined
        | None \<Rightarrow>
            AList.update (res_id result)
              (result\<lparr>score := js_times (score result) (semantic_weight w)\<rparr>) combined)"

definition hybrid_merge ::
  "ISemanticSearchResult list \<Rightarrow> ISemanticSearchResult list \<Rightarrow> weights
     \<Rightarrow> ISemanticSearchResult list" where
  "hybrid_merge textResults semanticResults w =
     sort_by_score (map snd (combine_semantic w semanticResults (combine_text w textResults [])))"

definition hybridSearch ::
  "(js_string \<Rightarrow> js_string) \<Rightarrow> (string \<times> ICategorizedContext) list \<Rightarrow> js_string \<Rightarrow> real list
     \<Rightarrow> weights \<Rightarrow> ISemanticSearchResult list" where
  "hybridSearch toLowerCase documents textQuery embedding w =
     hybrid_merge (search toLowerCase documents textQuery 100)
       (similaritySearch documents embedding 100) w"

text \<open>
  Notions the claims about the vector store speak of, stated on their own: the
  Euclidean norm of a vector is zero; the squared norm of a vector as the loop of
  \<open>cosineSimilarity\<close> accumulates it; a list of results is in descending order of
  score; and, for the merge, the score the specification gives a document id from the
  scores of the two result sets (\<open>None\<close> where the id occurs in neither), with the
  products and the sum it names those of the numbers.
\<close>

definition zero_norm :: "real list \<Rightarrow> bool" where
  "zero_norm v = (sqrt (sum_list (map (\<lambda>x. x * x) v)) = 0)"


definition descending :: "ISemanticSearchResult \<Rightarrow> ISemanticSearchResult \<Rightarrow> bool" where
  "descending a b = js_ge (score a) (score b)"

definition sorted_descending :: "ISemanticSearchResult list \<Rightarrow> bool" where
  "sorted_descending results = sorted_wrt descending results"

definition score_in :: "ISemanticSearchResult list \<Rightarrow> string \<Rightarrow> jsnum option" where
  "score_in results i = map_of (map (\<lambda>r. (res_id r, score r)) results) i"

definition spec_hybrid_score ::
  "ISemanticSearchResult list \<Rightarrow> ISemanticSearchResult list \<Rightarrow> weights \<Rightarrow> string \<Rightarrow> jsnum option"
  where
  "spec_hybrid_score textResults semanticResults w i =
     (case (score_in textResults i, score_in semanticResults i) of
        (Some t, Some s) \<Rightarrow>
          Some (js_plus (js_times t (text_weight w)) (js_times s (semantic_weight w)))
      | (Some t, None) \<Rightarrow> Some (js_times t (text_weight w))
      | (None, Some s) \<Rightarrow> Some (js_times s (semantic_weight w))
      | (None, None) \<Rightarrow> None)"

text \<open>
  What the specification says of a merged list, given the two result sets and the
  weights: it holds the ids of the two sets, each once; each entry carries the score of
  the formula; and it is in descending order of score, which is asked only of a list
  without a \<open>NaN\<close> score (a \<open>NaN\<close> is in no order with any number).
\<close>

definition spec_merge ::
  "ISemanticSearchResult list \<Rightarrow> ISemanticSearchResult list \<Rightarrow> weights
     \<Rightarrow> ISemanticSearchResult list \<Rightarrow> bool" where
  "spec_merge textResults semanticResults w merged =
     (res_id ` set merged = res_id ` set textResults \<union> res_id ` set semanticResults
      \<and> distinct (map res_id merged)
      \<and> (\<forall>r\<in>set merged.
            spec_hybrid_score textResults semanticResults w (res_id r) = Some (score r))
      \<and> (NaN \<notin> score ` set merged \<longrightarrow> sorted_descending merged))"

text \<open>
  Fixtures: documents, the result sets of the specification's example (their scores
  the doubles nearest to the decimals written), and a lower-casing that agrees with
  \<open>toLowerCase\<close> on the strings of the fixtures, which hold lower-case ASCII letters
  only.
\<close>

definition doc :: "string \<Rightarrow> real list \<Rightarrow> ICategorizedContext" where
  "doc c e = \<lparr>doc_content = units c, doc_embedding = e\<rparr>"

definition two_documents :: "(string \<times> ICategorizedContext) list" where
  "two_documents = [(''d1'', doc ''alpha'' [1, 2]), (''d2'', doc ''beta'' [0, 0])]"

definition three_documents :: "(string \<times> ICategorizedContext) list" where
  "three_documents =
     [(''d1'', doc ''alpha'' [1, 0]), (''d2'', doc ''beta'' [0, 0]),
      (''d3'', doc ''gamma'' [0, 1])]"

definition unit_documents :: "(string \<times> ICategorizedContext) list" where
  "unit_documents = [(''d1'', doc ''alpha'' [1, 0]), (''d2'', doc ''beta'' [0, 1])]"

definition lowercase_unchanged :: "js_string \<Rightarrow> js_string" where
  "lowercase_unchanged s = s"

definition result :: "string \<Rightarrow> real \<Rightarrow> ISemanticSearchResult" where
  "result i s = \<lparr>res_id = i, res_content = [], score = round64 s, res_embedding = []\<rparr>"

text \<open>The doubles nearest to 0.8, 0.6, 0.5 and 1.4.\<close>

definition double_0_8 :: real where
  "double_0_8 = 7205759403792794 / 2 ^ 53"

definition double_0_6 :: real where
  "double_0_6 = 5404319552844595 / 2 ^ 53"

definition double_0_5 :: real where
  "double_0_5 = 1 / 2"

definition double_1_4 :: real where
  "double_1_4 = 6305039478318694 / 2 ^ 52"

definition unit_weights :: weights where
  "unit_weights = \<lparr>text_weight = Fin 1, semantic_weight = Fin 1\<rparr>"

section \<open>Properties of the retry wrapper\<close>

lemma retry_loop_all_fail:
  assumes fails: "\<forall>k<maxRetries. operation k = Inl (e k) \<and> shouldRetry (handleError (e k))"
    and live: "\<forall>k<maxRetries. \<not> isCancellationRequested token k"
  shows "attempt < maxRetries \<Longrightarrow>
     retry_loop operation token maxRetries attempt lastError tr =
       (tr @ concat (map (\<lambda>j. [Invoke j, Delay (getRetryDelay (handleError (e j)) j)])
                      [attempt..<maxRetries - 1]) @ [Invoke (maxRetries - 1)],
        Inl (AIErr (handleError (e (maxRetries - 1)))))"
proof (induction "maxRetries - attempt" arbitrary: attempt lastError tr)
  case 0
  then show ?case by simp
next
  case (Suc d)
  from Suc.prems fails live have op: "operation attempt = Inl (e attempt)"
    and rt: "shouldRetry (handleError (e attempt))"
    and nc: "\<not> isCancellationRequested token attempt" by auto
  show ?case
  proof (cases "attempt = maxRetries - 1")
    case True
    with Suc.prems op nc show ?thesis by (subst retry_loop.simps) simp
  next
    case False
    with Suc.prems have lt: "Suc attempt < maxRetries" by simp
    from Suc.hyps(2) have d: "d = maxRetries - Suc attempt" by simp
    have up: "[attempt..<maxRetries - 1] = attempt # [Suc attempt..<maxRetries - 1]"
      using lt by (simp add: upt_conv_Cons)
    have "retry_loop operation token maxRetries attempt lastError tr =
          retry_loop operation token maxRetries (Suc attempt) (Some (e attempt))
            (tr @ [Invoke attempt, Delay (getRetryDelay (handleError (e attempt)) attempt)])"
      using Suc.prems op nc rt False by (subst retry_loop.simps) simp
    also have "\<dots> = (tr @ concat (map (\<lambda>j. [Invoke j,
                         Delay (getRetryDelay (handleError (e j)) j)])
                      [attempt..<maxRetries - 1]) @ [Invoke (maxRetries - 1)],
        Inl (AIErr (handleError (e (maxRetries - 1)))))"
      unfolding up Suc.hyps(1)[OF d lt] by simp
    finally show ?thesis .
  qed
qed

lemma attempts_append: "attempts (xs @ ys) = attempts xs @ attempts ys"
  by (induction xs rule: attempts.induct) simp_all

lemma sleeps_append: "sleeps (xs @ ys) = sleeps xs @ sleeps ys"
  by (induction xs rule: sleeps.induct) simp_all

lemma attempts_rounds: "attempts (concat (map (\<lambda>j. [Invoke j, Delay (f j)]) ks)) = ks"
  by (induction ks) simp_all

lemma sleeps_rounds: "sleeps (concat (map (\<lambda>j. [Invoke j, Delay (f j)]) ks)) = map f ks"
  by (induction ks) simp_all

text \<open>
  Claim C1, as amended. Let the operation fail in every iteration \<open>k < maxRetries\<close>
  with an error \<open>e k\<close> that classifies as retryable, let \<open>maxRetries\<close> be positive
  (3 by default) and let no cancellation be observed. Then the operation is invoked
  exactly \<open>maxRetries\<close> times, in iterations \<open>0, \<dots>, maxRetries - 1\<close>; the classified
  error of the last invocation is thrown; and the sleep that follows the invocation of
  iteration \<open>j\<close>, which is the sleep before attempt \<open>k = j + 2\<close> when attempts are
  counted from 1, lasts \<open>min (baseDelay * 2 ^ j) 30000\<close> milliseconds, that is
  \<open>min (baseDelay * 2 ^ (k - 2)) 30000\<close>, where \<open>baseDelay\<close> is the \<open>retryAfter\<close> of
  the error just caught (1000 when absent or 0).
\<close>

theorem executeWithRetry_exhausts:
  assumes "0 < maxRetries"
    and "\<forall>k<maxRetries. operation k = Inl (e k) \<and> shouldRetry (handleError (e k))"
    and "\<forall>k<maxRetries. \<not> isCancellationRequested token k"
  shows "snd (executeWithRetry operation token maxRetries)
           = Inl (AIErr (handleError (e (maxRetries - 1))))
       \<and> attempts (fst (executeWithRetry operation token maxRetries)) = [0..<maxRetries]
       \<and> fst (executeWithRetry operation token maxRetries)
           = concat (map (\<lambda>j. [Invoke j,
                 Delay (min (baseDelay (handleError (e j)) * 2 ^ j) 30000)])
               [0..<maxRetries - 1]) @ [Invoke (maxRetries - 1)]
       \<and> sleeps (fst (executeWithRetry operation token maxRetries))
           = map (\<lambda>j. min (baseDelay (handleError (e j)) * 2 ^ j) 30000) [0..<maxRetries - 1]"
proof -
  obtain n where n: "maxRetries = Suc n"
    using assms(1) by (cases maxRetries) simp_all
  have up: "[0..<maxRetries - Suc 0] @ [maxRetries - Suc 0] = [0..<maxRetries]"
    unfolding n by simp
  have run: "executeWithRetry operation token maxRetries =
      (concat (map (\<lambda>j. [Invoke j, Delay (getRetryDelay (handleError (e j)) j)])
                      [0..<maxRetries - 1]) @ [Invoke (maxRetries - 1)],
        Inl (AIErr (handleError (e (maxRetries - 1)))))"
    unfolding executeWithRetry_def
    using retry_loop_all_fail[OF assms(2,3) assms(1), of None "[]"] by simp
  show ?thesis
    unfolding run
    by (simp add: attempts_append sleeps_append attempts_rounds sleeps_rounds up
        getRetryDelay_def)
qed

text \<open>The theorem at the default \<open>maxRetries = 3\<close>, for a call that times out each
  time: three invocations, sleeps of 1000 and 2000 milliseconds between them.\<close>

theorem executeWithRetry_exhausts_witness:
  "executeWithRetry always_timeout None 3
     = ([Invoke 0, Delay 1000, Invoke 1, Delay 2000, Invoke 2],
        Inl (AIErr (timeout NoDetails)))
   \<and> attempts (fst (executeWithRetry always_timeout None 3)) = [0, 1, 2]
   \<and> sleeps (fst (executeWithRetry always_timeout None 3)) = [1000, 2000]"
proof -
  have pos: "0 < (3::nat)" by simp
  have fails: "\<forall>k<3. always_timeout k = Inl (AIErr (timeout NoDetails))
                 \<and> shouldRetry (handleError (AIErr (timeout NoDetails)))"
    by (simp add: always_timeout_def shouldRetry_def handleError_def timeout_def)
  have live: "\<forall>k<3. \<not> isCancellationRequested None k"
    by (simp add: isCancellationRequested_def)
  have up: "[0..<3] = [0, 1, 2]" "[0..<2] = [0, Suc 0]"
    by (simp_all add: upt_rec)
  have bd: "baseDelay (timeout NoDetails) = 1000"
    by (simp add: baseDelay_def timeout_def)
  from executeWithRetry_exhausts[OF pos fails live]
  show ?thesis
    by (cases "executeWithRetry always_timeout None 3")
       (simp add: up bd handleError_def)
qed

text \<open>
  The claim as stated fails there: the sleeps are 1000 and 2000 milliseconds, where
  \<open>min (baseDelay * 2 ^ (k - 1)) 30000\<close> gives 2000 before attempt 2 and 4000
  before attempt 3. And with a token that is cancelled during the first attempt, the
  operation, failing whenever it is attempted, is attempted once, and what is thrown is
  the cancellation error.
\<close>

theorem executeWithRetry_delay_counterexample:
  "sleeps (fst (executeWithRetry always_timeout None 3)) = [1000, 2000]
   \<and> sleeps (fst (executeWithRetry always_timeout None 3))
       \<noteq> [min (baseDelay (timeout NoDetails) * 2 ^ (2 - 1)) 30000,
           min (baseDelay (timeout NoDetails) * 2 ^ (3 - 1)) 30000]
   \<and> attempts (fst (executeWithRetry always_timeout (Some cancelled_after_first) 3)) = [0]
   \<and> snd (executeWithRetry always_timeout (Some cancelled_after_first) 3)
       = Inl (AIErr (new_AIError TIMEOUT ''Operation cancelled''))"
  by code_simp

section \<open>Properties of the model configuration registry\<close>

lemma configurations_fire [simp]: "configurations (fire ev r) = configurations r"
  by (simp add: fire_def)

lemma configurations_save [simp]: "configurations (saveConfigurations r) = configurations r"
  by (simp add: saveConfigurations_def)

lemma defaultModelId_fire [simp]: "defaultModelId (fire ev r) = defaultModelId r"
  by (simp add: fire_def)

lemma defaultModelId_save [simp]: "defaultModelId (saveConfigurations r) = defaultModelId r"
  by (simp add: saveConfigurations_def)

lemma keys_mark_default: "map fst (mark_default m cs) = map fst cs"
  by (induction cs) auto

lemma count_mark_absent: "m \<notin> fst ` set cs \<Longrightarrow> count_defaults (mark_default m cs) = 0"
  by (induction cs) auto

lemma count_mark_default: "distinct (map fst cs) \<Longrightarrow> count_defaults (mark_default m cs) \<le> 1"
  by (induction cs) (auto simp: count_mark_absent)

lemma count_update_plain:
  "\<not> isDefault c \<Longrightarrow> count_defaults (AList.update i c cs) \<le> count_defaults cs"
  by (induction cs) auto

lemma count_delete: "count_defaults (AList.delete i cs) \<le> count_defaults cs"
  by (induction cs) auto

lemma inv_fire [simp]: "registry_inv (fire ev r) = registry_inv r"
  by (simp add: registry_inv_def wf_registry_def at_most_one_default_def default_count_def)

lemma inv_save [simp]: "registry_inv (saveConfigurations r) = registry_inv r"
  by (simp add: registry_inv_def wf_registry_def at_most_one_default_def default_count_def)

lemma inv_secrets [simp]: "registry_inv (r\<lparr>secrets := s\<rparr>) = registry_inv r"
  by (simp add: registry_inv_def wf_registry_def at_most_one_default_def default_count_def)

lemma inv_default_id [simp]:
  "registry_inv (r\<lparr>defaultModelId := d, storedDefaultModel := sd\<rparr>) = registry_inv r"
  by (simp add: registry_inv_def wf_registry_def at_most_one_default_def default_count_def)

text \<open>Setting the default to a stored key leaves exactly the flags the loop wrote:
  whatever the flags were before, at most one is set afterwards.\<close>

lemma setDefaultModel_found:
  assumes "wf_registry r" and "map_of (configurations r) m = Some c"
  shows "registry_inv (snd (setDefaultModel m r))"
  using assms count_mark_default[of "configurations r" m]
  by (simp add: setDefaultModel_def registry_inv_def wf_registry_def at_most_one_default_def
      default_count_def keys_mark_default)

lemma setDefaultModel_absent:
  assumes "map_of (configurations r) m = None"
  shows "snd (setDefaultModel m r) = r"
  using assms by (simp add: setDefaultModel_def)

lemma setDefaultModel_inv:
  assumes "registry_inv r"
  shows "registry_inv (snd (setDefaultModel m r))"
proof (cases "map_of (configurations r) m")
  case None
  then show ?thesis using assms by (simp add: setDefaultModel_absent)
next
  case (Some c)
  from assms have "wf_registry r" by (simp add: registry_inv_def)
  then show ?thesis using Some by (rule setDefaultModel_found)
qed

lemma inv_update_plain:
  assumes "registry_inv r" and "\<not> isDefault c"
  shows "registry_inv (r\<lparr>configurations := AList.update i c (configurations r)\<rparr>)"
proof -
  have "count_defaults (AList.update i c (configurations r)) \<le> 1"
    using count_update_plain[OF assms(2), of i "configurations r"] assms(1)
    by (simp add: registry_inv_def at_most_one_default_def default_count_def)
  then show ?thesis using assms(1)
    by (simp add: registry_inv_def wf_registry_def at_most_one_default_def default_count_def
        distinct_update)
qed

lemma inv_delete:
  assumes "registry_inv r"
  shows "registry_inv (r\<lparr>configurations := AList.delete i (configurations r)\<rparr>)"
proof -
  have "count_defaults (AList.delete i (configurations r)) \<le> 1"
    using count_delete[of i "configurations r"] assms
    by (simp add: registry_inv_def at_most_one_default_def default_count_def)
  then show ?thesis using assms
    by (simp add: registry_inv_def wf_registry_def at_most_one_default_def default_count_def
        distinct_delete)
qed

lemma add_then_default:
  assumes "wf_registry r"
  shows "registry_inv (snd (setDefaultModel i
           (fire ev (saveConfigurations
              (r\<lparr>configurations := AList.update i c (configurations r)\<rparr>)))))"
proof (rule setDefaultModel_found)
  show "wf_registry (fire ev (saveConfigurations
          (r\<lparr>configurations := AList.update i c (configurations r)\<rparr>)))"
    using assms by (simp add: wf_registry_def distinct_update)
  show "map_of (configurations (fire ev (saveConfigurations
          (r\<lparr>configurations := AList.update i c (configurations r)\<rparr>)))) i = Some c"
    by (simp add: update_conv')
qed

lemma addConfiguration_inv:
  assumes "registry_inv r"
  shows "registry_inv (snd (addConfiguration env config r))"
proof -
  have wf: "wf_registry r" using assms by (simp add: registry_inv_def)
  have wf': "wf_registry (r\<lparr>secrets := s\<rparr>)" for s using wf by (simp add: wf_registry_def)
  have plain: "registry_inv (r\<lparr>secrets := s\<rparr>)" for s using assms by simp
  show ?thesis
    unfolding addConfiguration_def Let_def
    using assms add_then_default[OF wf] add_then_default[OF wf'] inv_update_plain[OF assms]
       inv_update_plain[OF plain]
    by (simp split: option.splits)
qed

lemma removeConfiguration_inv:
  assumes "registry_inv r"
  shows "registry_inv (snd (removeConfiguration env m r))"
proof -
  have "registry_inv (r\<lparr>secrets := s\<rparr>)" for s using assms by simp
  from inv_delete[OF this]
  have d: "registry_inv (r\<lparr>secrets := s, configurations := AList.delete m (configurations r)\<rparr>)"
    for s by simp
  show ?thesis
    unfolding removeConfiguration_def Let_def
    using assms d
    by (simp split: option.splits list.splits add: setDefaultModel_inv)
qed

lemma apply_op_inv:
  assumes "registry_inv r"
  shows "registry_inv (snd (apply_op op r))"
  using assms
  by (cases op) (simp_all add: addConfiguration_inv removeConfiguration_inv setDefaultModel_inv)

lemma run_ops_inv:
  assumes "registry_inv r"
  shows "registry_inv (run_ops ops r)"
  using assms
  by (induction ops arbitrary: r) (simp_all add: apply_op_inv)

text \<open>
  Claim C2. Start from any registry state in which at most one stored configuration is
  flagged as default (the empty registry is one) and apply any finite sequence
  \<open>ops\<close> of \<open>addConfiguration\<close>, \<open>removeConfiguration\<close> and \<open>setDefaultModel\<close>
  calls, each met by arbitrary collaborators and each resolving or rejecting. After
  every prefix of the sequence (\<open>take n ops\<close>, for every \<open>n\<close>) at most one stored
  configuration has \<open>isDefault = true\<close>.
\<close>

theorem default_invariant_add_remove_setDefault:
  assumes "wf_registry r" and "at_most_one_default r"
  shows "at_most_one_default (run_ops (take n ops) r)"
proof -
  from assms have "registry_inv r" by (simp add: registry_inv_def)
  then have "registry_inv (run_ops (take n ops) r)" by (rule run_ops_inv)
  then show ?thesis by (simp add: registry_inv_def)
qed

text \<open>From the empty registry, through a sequence with two additions flagged as
  default, a rejected addition, a rejected and a successful \<open>setDefaultModel\<close> and
  the removal of the default.\<close>

theorem default_invariant_witness:
  "wf_registry empty_registry \<and> at_most_one_default empty_registry
   \<and> at_most_one_default (run_ops (take 2 sample_ops) empty_registry)
   \<and> at_most_one_default (run_ops (take 6 sample_ops) empty_registry)
   \<and> default_count (run_ops (take 2 sample_ops) empty_registry) = 1
   \<and> map fst (configurations (run_ops (take 6 sample_ops) empty_registry)) = [''b'']"
proof -
  have wf: "wf_registry empty_registry"
    by (simp add: wf_registry_def empty_registry_def)
  have one: "at_most_one_default empty_registry"
    by (simp add: at_most_one_default_def default_count_def empty_registry_def)
  have two: "default_count (run_ops (take 2 sample_ops) empty_registry) = 1"
    by code_simp
  have keys: "map fst (configurations (run_ops (take 6 sample_ops) empty_registry)) = [''b'']"
    by code_simp
  from wf one two keys
    default_invariant_add_remove_setDefault[OF wf one, of 2 sample_ops]
    default_invariant_add_remove_setDefault[OF wf one, of 6 sample_ops]
  show ?thesis by simp
qed

text \<open>
  Claim C3 fails on the code. In a registry holding \<open>a\<close> (the default) and \<open>b\<close>,
  \<open>updateConfiguration('b', { isDefault: true })\<close> resolves and stores the spread
  object as it is: afterwards two stored configurations are flagged as default.
  \<open>addConfiguration\<close>, given a configuration flagged as default, calls
  \<open>setDefaultModel\<close> after storing it; \<open>updateConfiguration\<close> has no such step.
\<close>

theorem updateConfiguration_second_default:
  "at_most_one_default registry_ab
   \<and> map (\<lambda>kc. (fst kc, isDefault (snd kc))) (configurations registry_ab)
       = [(''a'', True), (''b'', False)]
   \<and> fst (updateConfiguration env_ok ''b'' (only_isDefault True) registry_ab) = None
   \<and> map (\<lambda>kc. (fst kc, isDefault (snd kc)))
         (configurations (snd (updateConfiguration env_ok ''b'' (only_isDefault True) registry_ab)))
       = [(''a'', True), (''b'', True)]
   \<and> default_count (snd (updateConfiguration env_ok ''b'' (only_isDefault True) registry_ab)) = 2
   \<and> \<not> at_most_one_default
         (snd (updateConfiguration env_ok ''b'' (only_isDefault True) registry_ab))"
  by code_simp

section \<open>Properties of the service manager\<close>

text \<open>
  Claim C7. If the registry has no configuration for \<open>modelId\<close>, \<open>switchModel\<close>
  rejects with the model-not-found error (code \<open>MODEL_NOT_FOUND\<close>) and leaves the
  manager as it was, \<open>activeModelId\<close> included; whenever it rejects, the manager is
  unchanged. When it resolves, the manager differs from the one before in exactly two
  fields: \<open>activeModelId\<close> is the target id and the active-model-changed event for
  it has been fired; in particular no provider request has been issued.
\<close>

theorem switchModel_contract:
  "(getConfiguration reg modelId = None \<longrightarrow>
      switchModel reg modelId m = (Some (AIErr (modelNotFound modelId)), m)
      \<and> code (modelNotFound modelId) = MODEL_NOT_FOUND
      \<and> activeModelId (snd (switchModel reg modelId m)) = activeModelId m)
   \<and> (fst (switchModel reg modelId m) \<noteq> None \<longrightarrow> snd (switchModel reg modelId m) = m)
   \<and> (fst (switchModel reg modelId m) = None \<longrightarrow>
        snd (switchModel reg modelId m)
          = m\<lparr>activeModelId := Some modelId,
               manager_events := manager_events m @ [DidChangeActiveModel modelId]\<rparr>
        \<and> provider_requests (snd (switchModel reg modelId m)) = provider_requests m)"
  by (simp add: switchModel_def modelNotFound_def split: option.splits)

theorem switchModel_contract_witness:
  "getConfiguration registry_a ''nonexistent'' = None
   \<and> switchModel registry_a ''nonexistent'' manager_a
       = (Some (AIErr (modelNotFound ''nonexistent'')), manager_a)
   \<and> activeModelId (snd (switchModel registry_a ''nonexistent'' manager_a)) = Some ''a''
   \<and> fst (switchModel registry_a ''a'' (manager_a\<lparr>activeModelId := None\<rparr>)) = None
   \<and> snd (switchModel registry_a ''a'' (manager_a\<lparr>activeModelId := None\<rparr>))
       = manager_a\<lparr>activeModelId := Some ''a'',
                    manager_events := [DidChangeActiveModel ''a'']\<rparr>"
proof -
  have absent: "getConfiguration registry_a ''nonexistent'' = None"
    by code_simp
  have ok: "fst (switchModel registry_a ''a'' (manager_a\<lparr>activeModelId := None\<rparr>)) = None"
    by code_simp
  have ev: "manager_events manager_a = []" "activeModelId manager_a = Some ''a''"
    by (simp_all add: manager_a_def)
  from switchModel_contract[of registry_a "''nonexistent''" manager_a]
    switchModel_contract[of registry_a "''a''" "manager_a\<lparr>activeModelId := None\<rparr>"]
    absent ok ev
  show ?thesis by simp
qed

lemma retry_loop_cancelled:
  assumes fails: "\<forall>j<k. \<exists>x. operation j = Inl x \<and> shouldRetry (handleError x)"
    and live: "\<forall>j<k. \<not> isCancellationRequested token j"
    and stop: "isCancellationRequested token k"
    and bound: "k < maxRetries"
  shows "attempt \<le> k \<Longrightarrow>
     snd (retry_loop operation token maxRetries attempt lastError tr)
       = Inl (AIErr (new_AIError TIMEOUT ''Operation cancelled''))"
proof (induction "k - attempt" arbitrary: attempt lastError tr)
  case 0
  then have "attempt = k" by simp
  with stop bound show ?case by (subst retry_loop.simps) simp
next
  case (Suc d)
  then have lt: "attempt < k" by simp
  with fails obtain x where x: "operation attempt = Inl x" "shouldRetry (handleError x)"
    by blast
  from lt live have nc: "\<not> isCancellationRequested token attempt" by simp
  from lt bound have ne: "attempt \<noteq> maxRetries - 1" "attempt < maxRetries" by simp_all
  from Suc.hyps(2) have d: "d = k - Suc attempt" by simp
  from lt have le: "Suc attempt \<le> k" by simp
  have "retry_loop operation token maxRetries attempt lastError tr =
        retry_loop operation token maxRetries (Suc attempt) (Some x)
          (tr @ [Invoke attempt, Delay (getRetryDelay (handleError x) attempt)])"
    using x nc ne by (subst retry_loop.simps) simp
  then show ?case using Suc.hyps(1)[OF d le] by simp
qed

text \<open>
  Claim C9, as amended. Take a \<open>getCodeCompletion\<close> call whose provider resolution
  and whose context extraction both succeed. The call never rejects. If the retry
  wrapper throws an error \<open>e\<close> (the provider request failed for good, or the wrapper
  saw the cancellation), the call resolves to the empty list and the error event for
  the classified \<open>e\<close> is the last thing fired. If the wrapper finds the token
  cancelled at the top of an iteration \<open>k < 3\<close> that it reaches (every earlier
  attempt failed with a retryable error), what it throws is the \<open>TIMEOUT\<close> error
  ``Operation cancelled'', so the call resolves to the empty list after the error event
  for that error.
\<close>

theorem getCodeCompletion_best_effort:
  assumes "getActiveProvider reg m = (Inr provider, m1)"
    and "extractContext = Inr codeContext"
  shows "(\<exists>items. fst (getCodeCompletion reg extractContext sendRequest token m) = Inr items)
       \<and> (\<forall>e. snd (executeWithRetry sendRequest token 3) = Inl e \<longrightarrow>
             fst (getCodeCompletion reg extractContext sendRequest token m) = Inr []
             \<and> manager_events (snd (getCodeCompletion reg extractContext sendRequest token m))
                 = manager_events m1 @ [DidError (handleError e)])
       \<and> (k < 3 \<and> (\<forall>j<k. \<exists>x. sendRequest j = Inl x \<and> shouldRetry (handleError x))
            \<and> (\<forall>j<k. \<not> isCancellationRequested token j)
            \<and> isCancellationRequested token k \<longrightarrow>
             snd (executeWithRetry sendRequest token 3)
               = Inl (AIErr (new_AIError TIMEOUT ''Operation cancelled''))
             \<and> fst (getCodeCompletion reg extractContext sendRequest token m) = Inr []
             \<and> manager_events (snd (getCodeCompletion reg extractContext sendRequest token m))
                 = manager_events m1 @ [DidError (new_AIError TIMEOUT ''Operation cancelled'')])"
proof -
  have caught: "fst (getCodeCompletion reg extractContext sendRequest token m) = Inr []
        \<and> manager_events (snd (getCodeCompletion reg extractContext sendRequest token m))
            = manager_events m1 @ [DidError (handleError e)]"
    if "snd (executeWithRetry sendRequest token 3) = Inl e" for e
    using that assms by (simp add: getCodeCompletion_def Let_def)
  have resolves: "\<exists>items. fst (getCodeCompletion reg extractContext sendRequest token m) = Inr items"
    using assms
    by (cases "snd (executeWithRetry sendRequest token 3)")
       (simp_all add: getCodeCompletion_def Let_def)
  have cancelled: "snd (executeWithRetry sendRequest token 3)
               = Inl (AIErr (new_AIError TIMEOUT ''Operation cancelled''))"
    if "k < 3" "\<forall>j<k. \<exists>x. sendRequest j = Inl x \<and> shouldRetry (handleError x)"
       "\<forall>j<k. \<not> isCancellationRequested token j" "isCancellationRequested token k"
    unfolding executeWithRetry_def
    using retry_loop_cancelled[OF that(2,3,4,1), of 0 None "[]"] by simp
  show ?thesis
    using resolves caught cancelled caught[of "AIErr (new_AIError TIMEOUT ''Operation cancelled'')"]
    by (simp add: handleError_def)
qed

theorem getCodeCompletion_best_effort_witness:
  "getActiveProvider registry_a manager_a = (Inr ''ollama'', manager_a)
   \<and> fst (getCodeCompletion registry_a context_ready always_timeout (Some always_cancelled)
            manager_a) = Inr []
   \<and> manager_events (snd (getCodeCompletion registry_a context_ready always_timeout
            (Some always_cancelled) manager_a))
       = [DidError (new_AIError TIMEOUT ''Operation cancelled'')]
   \<and> fst (getCodeCompletion registry_a context_ready always_timeout None manager_a) = Inr []
   \<and> manager_events (snd (getCodeCompletion registry_a context_ready always_timeout None
            manager_a))
       = [DidError (timeout NoDetails)]"
proof -
  have prov: "getActiveProvider registry_a manager_a = (Inr ''ollama'', manager_a)"
    by code_simp
  have ctx: "context_ready = Inr ()"
    by (simp add: context_ready_def)
  have stop: "isCancellationRequested (Some always_cancelled) 0"
    by (simp add: isCancellationRequested_def always_cancelled_def)
  have thrown: "snd (executeWithRetry always_timeout None 3) = Inl (AIErr (timeout NoDetails))"
    by code_simp
  have ev: "manager_events manager_a = []"
    by (simp add: manager_a_def)
  from getCodeCompletion_best_effort[OF prov ctx, of always_timeout "Some always_cancelled" 0]
    getCodeCompletion_best_effort[OF prov ctx, of always_timeout None 0]
    prov stop thrown ev
  show ?thesis by (simp add: handleError_def)
qed

text \<open>
  The claim as stated fails when the context extraction rejects: provider resolution
  succeeds and the token is cancelled, yet the call rejects with the extraction's
  error, and no event is fired.
\<close>

theorem getCodeCompletion_rejects_counterexample:
  "getActiveProvider registry_a manager_a = (Inr ''ollama'', manager_a)
   \<and> isCancellationRequested (Some always_cancelled) 0
   \<and> getCodeCompletion registry_a context_unavailable always_timeout (Some always_cancelled)
       manager_a
       = (Inl (Other \<lparr>err_code = None, err_message = Some ''No active editor''\<rparr>), manager_a)"
  by code_simp

section \<open>Properties of the conversation memory\<close>

lemma slice_last_of_history:
  assumes "0 < n" and "n \<le> length prior"
  shows "js_slice_from (- int n) (first # prior @ [u]) = drop (Suc (length prior) - n) prior @ [u]"
proof -
  have "nat (max 0 (int (length (first # prior @ [u])) - int n)) = Suc (Suc (length prior)) - n"
    using assms by simp
  moreover have "drop (Suc (Suc (length prior)) - n) (first # prior @ [u])
      = drop (Suc (length prior) - n) (prior @ [u])"
    using assms by (simp add: Suc_diff_le)
  moreover have "drop (Suc (length prior) - n) (prior @ [u])
      = drop (Suc (length prior) - n) prior @ [u]"
    using assms by simp
  ultimately show ?thesis using assms by (simp add: js_slice_from_def)
qed

text \<open>
  Claim C5, as amended. Let the stored history of the conversation be a first message
  (the system message) followed by \<open>prior\<close>, and call \<open>executeConversationFlow\<close>
  with \<open>maxHistory = n\<close>, where \<open>0 < n \<le> length prior\<close>. The new user message is
  appended before the trim, and the trim keeps the first message and the last \<open>n\<close>
  messages of the result: the history sent to \<open>chat\<close> is the first message, the most
  recent \<open>n - 1\<close> prior messages and the new user message. When \<open>chat\<close> resolves, the
  stored history is that list followed by the assistant reply; when it rejects, the
  stored history is the untrimmed one with the user message appended. For
  \<open>maxHistory = 2\<close> and four prior turns, one prior turn is retained, not two.
\<close>

theorem executeConversationFlow_trim:
  assumes "conversationMemory conversationId = Some (first # prior)"
    and "0 < n" and "n \<le> length prior"
  shows "executeConversationFlow chat conversationId userText
           (Some \<lparr>maxHistory = Some (int n), systemPrompt = sp\<rparr>) conversationMemory
         = (case chat (first # drop (Suc (length prior) - n) prior
                         @ [\<lparr>role = User, content = userText\<rparr>]) of
              Inl e \<Rightarrow>
                (Inl e,
                 conversationMemory(conversationId \<mapsto>
                   first # prior @ [\<lparr>role = User, content = userText\<rparr>]))
            | Inr response \<Rightarrow>
                (Inr (chat_content response),
                 conversationMemory(conversationId \<mapsto>
                   first # drop (Suc (length prior) - n) prior
                     @ [\<lparr>role = User, content = userText\<rparr>,
                        \<lparr>role = Assistant, content = chat_content response\<rparr>])))"
proof -
  have long: "int (length ((first # prior) @ [\<lparr>role = User, content = userText\<rparr>])) > int n + 1"
    using assms(3) by simp
  show ?thesis
    unfolding executeConversationFlow_def Let_def
    using assms long slice_last_of_history[OF assms(2,3), of first "\<lparr>role = User, content = userText\<rparr>"]
    by (simp split: sum.splits)
qed

theorem executeConversationFlow_trim_witness:
  "[''c1'' \<mapsto> five_messages] ''c1'' = Some five_messages
   \<and> fst (executeConversationFlow chat_reply ''c1'' ''new''
            (Some \<lparr>maxHistory = Some 2, systemPrompt = None\<rparr>) [''c1'' \<mapsto> five_messages])
       = Inr ''reply''
   \<and> snd (executeConversationFlow chat_reply ''c1'' ''new''
            (Some \<lparr>maxHistory = Some 2, systemPrompt = None\<rparr>) [''c1'' \<mapsto> five_messages])
         ''c1''
       = Some [sys_msg, \<lparr>role = Assistant, content = ''a2''\<rparr>,
               \<lparr>role = User, content = ''new''\<rparr>, \<lparr>role = Assistant, content = ''reply''\<rparr>]"
proof -
  let ?prior = "[\<lparr>role = User, content = ''q1''\<rparr>, \<lparr>role = Assistant, content = ''a1''\<rparr>,
                \<lparr>role = User, content = ''q2''\<rparr>, \<lparr>role = Assistant, content = ''a2''\<rparr>]"
  have stored: "[''c1'' \<mapsto> five_messages] ''c1'' = Some (sys_msg # ?prior)"
    by (simp add: five_messages_def)
  have pos: "0 < (2::nat)" by simp
  have len: "(2::nat) \<le> length ?prior" by simp
  from executeConversationFlow_trim[where conversationMemory = "[''c1'' \<mapsto> five_messages]"
      and conversationId = "''c1''" and first = sys_msg and prior = ?prior and n = 2
      and chat = chat_reply and userText = "''new''" and sp = None, OF stored pos len]
  show ?thesis by (simp add: chat_reply_def five_messages_def)
qed

text \<open>
  The claim as stated fails on the stored history \<open>[system, q1, a1, q2, a2]\<close>: after
  the call the history is \<open>[system, a2, new, reply]\<close>, not
  \<open>[system, q2, a2, new, reply]\<close>.
\<close>

theorem executeConversationFlow_trim_counterexample:
  "snd (executeConversationFlow chat_reply ''c1'' ''new''
          (Some \<lparr>maxHistory = Some 2, systemPrompt = None\<rparr>) [''c1'' \<mapsto> five_messages])
       ''c1''
     = Some [sys_msg, \<lparr>role = Assistant, content = ''a2''\<rparr>,
             \<lparr>role = User, content = ''new''\<rparr>, \<lparr>role = Assistant, content = ''reply''\<rparr>]
   \<and> snd (executeConversationFlow chat_reply ''c1'' ''new''
          (Some \<lparr>maxHistory = Some 2, systemPrompt = None\<rparr>) [''c1'' \<mapsto> five_messages])
       ''c1''
     \<noteq> Some [sys_msg, \<lparr>role = User, content = ''q2''\<rparr>, \<lparr>role = Assistant, content = ''a2''\<rparr>,
             \<lparr>role = User, content = ''new''\<rparr>, \<lparr>role = Assistant, content = ''reply''\<rparr>]"
  by (simp add: executeConversationFlow_def Let_def five_messages_def chat_reply_def
      js_slice_from_def sys_msg_def)

section \<open>Properties of the streaming adapter\<close>

text \<open>
  The line iterator of \<open>makeStreamingRequest\<close>, on its own: a line that is the sentinel
  \<open>[DONE]\<close>, with or without the \<open>data: \<close> prefix, is dropped, so that no line the
  iterator hands on is \<open>[DONE]\<close>; the iteration does not stop there, and the lines
  after the sentinel are handed on as if it were absent.
\<close>

lemma split_lines_nonempty: "split_lines s \<noteq> []"
  by (induction s) (auto split: list.splits)

lemma split_lines_append: "split_lines (a @ 0x0A # b) = split_lines a @ split_lines b"
proof (induction a)
  case Nil
  show ?case by simp
next
  case (Cons c a)
  obtain l ls where l: "split_lines a = l # ls"
    using split_lines_nonempty[of a] by (cases "split_lines a") auto
  with Cons show ?case by simp
qed

lemma chunk_lines_append: "chunk_lines (a @ 0x0A # b) = chunk_lines a @ chunk_lines b"
  by (simp add: chunk_lines_def split_lines_append)

lemma chunk_lines_sentinel:
  "chunk_lines (units ''[DONE]'') = []" "chunk_lines (units ''data: [DONE]'') = []"
  by (simp_all add: chunk_lines_def strip_data_prefix_def trim_def js_whitespace_def units_def)

lemma chunk_lines_no_sentinel: "units ''[DONE]'' \<notin> set (chunk_lines chunk)"
  by (simp add: chunk_lines_def)

lemma chunk_lines_skip_sentinel:
  assumes "d = units ''[DONE]'' \<or> d = units ''data: [DONE]''"
  shows "chunk_lines (a @ 0x0A # d @ 0x0A # b) = chunk_lines (a @ 0x0A # b)"
  using assms by (auto simp: chunk_lines_append chunk_lines_sentinel)

lemma chunk_lines_done_then_content: "chunk_lines done_then_content = [content_x_line]"
  by (simp add: chunk_lines_def done_then_content_def content_x_line_def
      strip_data_prefix_def trim_def js_whitespace_def units_def)

lemma makeStreamingRequest_skips_sentinel:
  assumes "d = units ''[DONE]'' \<or> d = units ''data: [DONE]''"
    and "stream resp = Some (before @ [a @ 0x0A # d @ 0x0A # b] @ after, failure)"
  shows "makeStreamingRequest (Inr resp)
           = makeStreamingRequest
               (Inr (resp\<lparr>stream := Some (before @ [a @ 0x0A # b] @ after, failure)\<rparr>))"
  using assms(2) chunk_lines_skip_sentinel[OF assms(1), of a b]
  by (simp add: makeStreamingRequest_def)

lemma makeStreamingRequest_done_then_content:
  "makeStreamingRequest (request (llamacpp_adapter [done_then_content]))
     = Inr ([content_x_line], None)"
  by (simp add: makeStreamingRequest_def llamacpp_adapter_def chunk_lines_done_then_content)





section \<open>Properties of the rounding\<close>

lemma round_half_even_error: "\<bar>of_int (round_half_even y) - y\<bar> \<le> 1 / 2"
  unfolding round_half_even_def by (auto simp: abs_if) linarith+

lemma round_half_even_of_int: "round_half_even (of_int k) = k"
  by (simp add: round_half_even_def)

lemma round_half_even_ge: "of_int n \<le> y \<Longrightarrow> n \<le> round_half_even y"
  using round_half_even_error[of y] by linarith

lemma round_half_even_le: "y \<le> of_int n \<Longrightarrow> round_half_even y \<le> n"
  using round_half_even_error[of y] by linarith

lemma powr2_powi: "(2::real) powr real_of_int k = 2 powi k"
  by (rule powr_real_of_int') simp_all

lemma floor_log2_iff:
  assumes "0 < x"
  shows "\<lfloor>log 2 x\<rfloor> = k \<longleftrightarrow> 2 powi k \<le> x \<and> x < 2 powi (k + 1)"
proof -
  have "1 < (2::real)" by simp
  from floor_log_eq_powr_iff[OF assms this, of k] show ?thesis
    unfolding powr2_powi .
qed

lemma floor_log2_bounds:
  assumes "0 < x"
  shows "2 powi \<lfloor>log 2 x\<rfloor> \<le> x" and "x < 2 powi (\<lfloor>log 2 x\<rfloor> + 1)"
  using floor_log2_iff[OF assms, of "\<lfloor>log 2 x\<rfloor>"] by blast+

lemma floor_log2_eqI:
  assumes "2 powi e \<le> x" and "x < 2 powi (e + 1)"
  shows "\<lfloor>log 2 x\<rfloor> = e"
proof -
  have "0 < (2::real) powi e" by simp
  with assms(1) have pos: "0 < x" by linarith
  show ?thesis
    using floor_log2_iff[OF pos, of e] assms by blast
qed

lemma binade_ge: "- 1022 \<le> binade x"
  by (simp add: binade_def)

lemma binade_eqI:
  assumes "2 powi e \<le> \<bar>x\<bar>" and "\<bar>x\<bar> < 2 powi (e + 1)" and "- 1022 \<le> e"
  shows "binade x = e"
  using floor_log2_eqI[OF assms(1,2)] assms(3) by (simp add: binade_def)

lemma binade_normal:
  assumes "2 powi (- 1022) \<le> \<bar>x\<bar>"
  shows "2 powi binade x \<le> \<bar>x\<bar>" and "\<bar>x\<bar> < 2 powi (binade x + 1)"
proof -
  have "0 < (2::real) powi (- 1022)" by simp
  with assms have pos: "0 < \<bar>x\<bar>" by linarith
  have "\<not> \<lfloor>log 2 \<bar>x\<bar>\<rfloor> < - 1022"
  proof
    assume "\<lfloor>log 2 \<bar>x\<bar>\<rfloor> < - 1022"
    then have "\<lfloor>log 2 \<bar>x\<bar>\<rfloor> + 1 \<le> - 1022" by linarith
    then have "(2::real) powi (\<lfloor>log 2 \<bar>x\<bar>\<rfloor> + 1) \<le> 2 powi (- 1022)"
      by (intro power_int_increasing) simp_all
    with floor_log2_bounds(2)[OF pos] assms show False by linarith
  qed
  then have b: "binade x = \<lfloor>log 2 \<bar>x\<bar>\<rfloor>" by (simp add: binade_def)
  show "2 powi binade x \<le> \<bar>x\<bar>" and "\<bar>x\<bar> < 2 powi (binade x + 1)"
    unfolding b using floor_log2_bounds[OF pos] by simp_all
qed

lemma binade_subnormal:
  assumes "\<bar>x\<bar> < 2 powi (- 1022)" and "x \<noteq> 0"
  shows "binade x = - 1022"
proof -
  have pos: "0 < \<bar>x\<bar>" using assms(2) by simp
  have "\<not> - 1022 < \<lfloor>log 2 \<bar>x\<bar>\<rfloor>"
  proof
    assume "- 1022 < \<lfloor>log 2 \<bar>x\<bar>\<rfloor>"
    then have "(2::real) powi (- 1022) \<le> 2 powi \<lfloor>log 2 \<bar>x\<bar>\<rfloor>"
      by (intro power_int_increasing) simp_all
    with floor_log2_bounds(1)[OF pos] assms(1) show False by linarith
  qed
  then show ?thesis by (simp add: binade_def)
qed

lemma ulp_pos: "0 < ulp x"
  by (simp add: ulp_def)

lemma ulp_times: "ulp x * 2 ^ 52 = 2 powi binade x"
proof -
  have "(2::real) powi binade x = 2 powi ((binade x - 52) + 52)" by simp
  also have "\<dots> = 2 powi (binade x - 52) * 2 powi 52"
    by (subst power_int_add) simp_all
  finally show ?thesis by (simp add: ulp_def)
qed

lemma ulp_below:
  assumes "x \<noteq> 0"
  shows "\<bar>x\<bar> < ulp x * 2 ^ 53"
proof -
  have e: "ulp x * 2 ^ 53 = 2 * 2 powi binade x"
    using ulp_times[of x] by simp
  have p: "(2::real) powi (binade x + 1) = 2 * 2 powi binade x"
    by (subst power_int_add) simp_all
  show ?thesis
  proof (cases "2 powi (- 1022) \<le> \<bar>x\<bar>")
    case True
    from binade_normal(2)[OF True] show ?thesis unfolding e p .
  next
    case False
    then have s: "\<bar>x\<bar> < 2 powi (- 1022)" by simp
    then have "binade x = - 1022" using assms by (rule binade_subnormal)
    with s show ?thesis unfolding e by simp
  qed
qed

lemma ulp_normal:
  assumes "2 powi (- 1022) \<le> \<bar>x\<bar>"
  shows "ulp x * 2 ^ 52 \<le> \<bar>x\<bar>"
  unfolding ulp_times using assms by (rule binade_normal(1))

lemma ulp_subnormal:
  assumes "\<bar>x\<bar> < 2 powi (- 1022)" and "x \<noteq> 0"
  shows "ulp x = 2 powi (- 1074)"
  using binade_subnormal[OF assms] by (simp add: ulp_def)

lemma ulp_least: "2 powi (- 1074) \<le> ulp x"
  unfolding ulp_def using binade_ge[of x] by (intro power_int_increasing) simp_all

lemma round64_zero: "round64 0 = Fin 0"
  by (simp add: round64_def)

lemma round64_finite:
  assumes "x \<noteq> 0" and "\<bar>x\<bar> < 2 ^ 1024 - 2 ^ 970"
  shows "round64 x = Fin (of_int (round_half_even (x / ulp x)) * ulp x)"
  using assms unfolding round64_def by (simp only: if_False not_le[symmetric])

lemma round64_not_NaN: "round64 x \<noteq> NaN"
  unfolding round64_def by (simp only: if_distrib) (auto split: if_splits)



lemma round64_nonneg:
  assumes "0 \<le> x"
  shows "round64 x = PosInf \<or> (\<exists>r\<ge>0. round64 x = Fin r)"
proof (cases "x = 0")
  case True
  then show ?thesis by (simp add: round64_zero)
next
  case nz: False
  show ?thesis
  proof (cases "\<bar>x\<bar> < 2 ^ 1024 - 2 ^ 970")
    case True
    have "0 \<le> x / ulp x" using assms ulp_pos[of x] by simp
    then have "0 \<le> round_half_even (x / ulp x)"
      using round_half_even_ge[of 0 "x / ulp x"] by simp
    then have "0 \<le> of_int (round_half_even (x / ulp x)) * ulp x"
      using ulp_pos[of x] by simp
    with round64_finite[OF nz True] show ?thesis by blast
  next
    case False
    with nz assms have "round64 x = PosInf" unfolding round64_def by (simp only: if_False not_less) simp
    then show ?thesis by simp
  qed
qed

lemma round64_nonpos:
  assumes "x \<le> 0"
  shows "\<not> js_positive (round64 x)"
proof (cases "x = 0")
  case True
  then show ?thesis by (simp add: round64_zero)
next
  case nz: False
  show ?thesis
  proof (cases "\<bar>x\<bar> < 2 ^ 1024 - 2 ^ 970")
    case True
    have "x / ulp x \<le> 0" using assms ulp_pos[of x] by (simp add: divide_nonpos_pos)
    then have "round_half_even (x / ulp x) \<le> 0"
      using round_half_even_le[of "x / ulp x" 0] by simp
    then have "of_int (round_half_even (x / ulp x)) * ulp x \<le> 0"
      using ulp_pos[of x] by (simp add: mult_le_0_iff)
    with round64_finite[OF nz True] show ?thesis by simp
  next
    case False
    with nz assms have "round64 x = NegInf" unfolding round64_def by (simp only: if_False not_less) simp
    then show ?thesis by simp
  qed
qed

lemma round64_positive:
  assumes "2 powi (- 1074) \<le> x"
  shows "js_positive (round64 x)"
proof -
  have "0 < (2::real) powi (- 1074)" by simp
  with assms have pos: "0 < x" by linarith
  then have nz: "x \<noteq> 0" by simp
  show ?thesis
  proof (cases "\<bar>x\<bar> < 2 ^ 1024 - 2 ^ 970")
    case True
    have "ulp x \<le> x"
    proof (cases "2 powi (- 1022) \<le> \<bar>x\<bar>")
      case True
      from ulp_normal[OF True] pos have "ulp x * 2 ^ 52 \<le> x" by simp
      moreover have "ulp x * 1 \<le> ulp x * 2 ^ 52"
        using ulp_pos[of x] by (intro mult_left_mono) simp_all
      ultimately show ?thesis by simp
    next
      case False
      then have "ulp x = 2 powi (- 1074)" using nz by (intro ulp_subnormal) simp_all
      with assms show ?thesis by simp
    qed
    then have "1 \<le> x / ulp x" using ulp_pos[of x] by (simp add: field_simps)
    then have "1 \<le> round_half_even (x / ulp x)"
      using round_half_even_ge[of 1 "x / ulp x"] by simp
    then have "0 < of_int (round_half_even (x / ulp x)) * ulp x"
      using ulp_pos[of x] by simp
    with round64_finite[OF nz True] show ?thesis by simp
  next
    case False
    with pos have "round64 x = PosInf" unfolding round64_def by (simp only: if_False not_less) simp
    then show ?thesis by simp
  qed
qed

lemma round64_grid:
  assumes "round64 x = Fin r"
  shows "\<exists>m::int. r = of_int m * 2 powi (- 1074)"
proof (cases "x = 0")
  case True
  with assms have "r = 0" by (simp add: round64_zero)
  then show ?thesis by (intro exI[of _ 0]) simp
next
  case nz: False
  have fin: "\<bar>x\<bar> < 2 ^ 1024 - 2 ^ 970"
  proof (rule ccontr)
    assume "\<not> \<bar>x\<bar> < 2 ^ 1024 - 2 ^ 970"
    with nz have "round64 x = PosInf \<or> round64 x = NegInf"
      unfolding round64_def by (simp only: if_False not_less) simp
    with assms show False by auto
  qed
  let ?k = "round_half_even (x / ulp x)"
  have r: "r = of_int ?k * ulp x" using round64_finite[OF nz fin] assms by simp
  have e: "0 \<le> binade x + 1022" using binade_ge[of x] by simp
  have "ulp x = 2 powi ((binade x + 1022) + (- 1074))" by (simp add: ulp_def)
  also have "\<dots> = 2 powi (binade x + 1022) * 2 powi (- 1074)"
    by (subst power_int_add) simp_all
  also have "(2::real) powi (binade x + 1022) = of_int (2 ^ nat (binade x + 1022))"
    using e by (simp add: power_int_def)
  finally have "r = of_int (?k * 2 ^ nat (binade x + 1022)) * 2 powi (- 1074)"
    unfolding r by simp
  then show ?thesis by blast
qed

lemma on_grid_round64: "on_grid (round64 x)"
proof (cases "round64 x")
  case (Fin r)
  from round64_grid[OF Fin] obtain m :: int where "r = of_int m * 2 powi (- 1074)" by blast
  then have "r * 2 ^ 1074 = of_int m" by (simp add: power_int_def field_simps)
  then show ?thesis using Fin by simp
qed simp_all

lemma on_grid_times: "on_grid (js_times a b)"
  by (cases a; cases b) (simp_all add: on_grid_round64)

lemma on_grid_plus: "on_grid (js_plus a b)"
  by (cases a; cases b) (simp_all add: on_grid_round64)

lemma grid_difference:
  assumes "x * 2 ^ 1074 \<in> \<int>" and "y * 2 ^ 1074 \<in> \<int>" and "x < (y::real)"
  shows "2 powi (- 1074) \<le> y - x"
proof -
  from assms(1) obtain m :: int where m: "x * 2 ^ 1074 = of_int m" by (auto elim: Ints_cases)
  from assms(2) obtain n :: int where n: "y * 2 ^ 1074 = of_int n" by (auto elim: Ints_cases)
  have "x * 2 ^ 1074 < y * 2 ^ 1074" using assms(3) by simp
  then have "m < n" unfolding m n by simp
  then have "(1::real) \<le> of_int n - of_int m" by linarith
  then have "1 \<le> (y - x) * 2 ^ 1074" unfolding m[symmetric] n[symmetric]
    by (simp add: algebra_simps)
  then show ?thesis by (simp add: power_int_def field_simps)
qed

lemma js_positive_difference:
  assumes "x * 2 ^ 1074 \<in> \<int>" and "y * 2 ^ 1074 \<in> \<int>"
  shows "js_positive (round64 (y - x)) \<longleftrightarrow> x < y"
proof (cases "x < y")
  case True
  from grid_difference[OF assms True] have "js_positive (round64 (y - x))"
    by (rule round64_positive)
  with True show ?thesis by simp
next
  case False
  then have "y - x \<le> 0" by simp
  then have "\<not> js_positive (round64 (y - x))" by (rule round64_nonpos)
  with False show ?thesis by simp
qed

lemma js_positive_minus:
  assumes "on_grid a" and "on_grid b" and "a \<noteq> NaN" and "b \<noteq> NaN"
  shows "js_positive (js_minus b a) \<longleftrightarrow> \<not> js_ge a b"
  using assms
  by (cases a; cases b) (simp_all add: js_minus_def js_positive_difference not_le)




lemma round64_eval:
  assumes "2 powi e \<le> \<bar>x\<bar>" and "\<bar>x\<bar> < 2 powi (e + 1)" and "- 1022 \<le> e" and "e \<le> 52"
  shows "round64 x = Fin (of_int (round_half_even (x * 2 ^ nat (52 - e))) / 2 ^ nat (52 - e))"
proof -
  have b: "binade x = e" using assms(1-3) by (rule binade_eqI)
  have "0 < (2::real) powi e" by simp
  with assms(1) have "0 < \<bar>x\<bar>" by linarith
  then have nz: "x \<noteq> 0" by simp
  have "(2::real) powi (e + 1) \<le> 2 powi 1023"
    using assms(4) by (intro power_int_increasing) simp_all
  moreover have "(2::real) powi 1023 < 2 ^ 1024 - 2 ^ 970" by (simp add: power_int_def)
  ultimately have fin: "\<bar>x\<bar> < 2 ^ 1024 - 2 ^ 970" using assms(2) by linarith
  have u: "ulp x = 1 / 2 ^ nat (52 - e)"
    using assms(4) by (simp add: ulp_def b power_int_def field_simps)
  from round64_finite[OF nz fin] show ?thesis unfolding u by simp
qed

lemma round64_one: "round64 1 = Fin 1"
  by (subst round64_eval[of 0]) (simp_all add: power_int_def round_half_even_def)

text \<open>The decimals of the specification's example, as doubles, and their sum.\<close>

lemma round64_decimals:
  "round64 (8 / 10) = Fin double_0_8" "round64 (6 / 10) = Fin double_0_6"
  "round64 (5 / 10) = Fin double_0_5" "round64 (14 / 10) = Fin double_1_4"
proof -
  show "round64 (8 / 10) = Fin double_0_8"
    by (subst round64_eval[of "- 1"])
      (simp_all add: power_int_def round_half_even_def double_0_8_def)
  show "round64 (6 / 10) = Fin double_0_6"
    by (subst round64_eval[of "- 1"])
      (simp_all add: power_int_def round_half_even_def double_0_6_def)
  show "round64 (5 / 10) = Fin double_0_5"
    by (subst round64_eval[of "- 1"])
      (simp_all add: power_int_def round_half_even_def double_0_5_def)
  show "round64 (14 / 10) = Fin double_1_4"
    by (subst round64_eval[of 0])
      (simp_all add: power_int_def round_half_even_def double_1_4_def)
qed

lemma round64_doubles:
  "round64 double_0_8 = Fin double_0_8" "round64 double_0_6 = Fin double_0_6"
  "round64 double_0_5 = Fin double_0_5"
proof -
  show "round64 double_0_8 = Fin double_0_8"
    by (subst round64_eval[of "- 1"])
      (simp_all add: power_int_def round_half_even_def double_0_8_def)
  show "round64 double_0_6 = Fin double_0_6"
    by (subst round64_eval[of "- 1"])
      (simp_all add: power_int_def round_half_even_def double_0_6_def)
  show "round64 double_0_5 = Fin double_0_5"
    by (subst round64_eval[of "- 1"])
      (simp_all add: power_int_def round_half_even_def double_0_5_def)
qed

lemma round64_sum_0_8_0_6: "round64 (double_0_8 + double_0_6) = Fin double_1_4"
  by (subst round64_eval[of 0])
    (simp_all add: power_int_def round_half_even_def double_0_8_def double_0_6_def
      double_1_4_def)

lemma comparator_signs:
  "\<not> js_positive (round64 (double_0_5 - double_1_4))"
  "js_positive (round64 (1 - double_0_8))"
proof -
  show "\<not> js_positive (round64 (double_0_5 - double_1_4))"
    by (rule round64_nonpos) (simp add: double_0_5_def double_1_4_def)
  show "js_positive (round64 (1 - double_0_8))"
  proof (rule round64_positive)
    have "(2::real) powi (- 1074) \<le> 2 powi (- 53)"
      by (intro power_int_increasing) simp_all
    also have "\<dots> = 1 / 2 ^ 53" by (simp add: power_int_def field_simps)
    also have "\<dots> \<le> 1 - double_0_8" by (simp add: double_0_8_def)
    finally show "2 powi (- 1074) \<le> 1 - double_0_8" .
  qed
qed


text \<open>
  The rounding on values whose doubles are known: \<open>0.1 + 0.2\<close> is
  \<open>0.30000000000000004\<close>, one unit above the double nearest to \<open>0.3\<close>; a tie
  goes to the even neighbour; the largest double is \<open>2^1024 - 2^971\<close>; half the
  smallest subnormal rounds to zero.
\<close>

lemma round64_eval_large:
  assumes "2 powi e \<le> \<bar>x\<bar>" and "\<bar>x\<bar> < 2 powi (e + 1)" and "52 \<le> e" and "e \<le> 1022"
  shows "round64 x = Fin (of_int (round_half_even (x / 2 ^ nat (e - 52))) * 2 ^ nat (e - 52))"
proof -
  have b: "binade x = e" using assms(1-3) by (intro binade_eqI) simp_all
  have "0 < (2::real) powi e" by simp
  with assms(1) have "0 < \<bar>x\<bar>" by linarith
  then have nz: "x \<noteq> 0" by simp
  have "(2::real) powi (e + 1) \<le> 2 powi 1023"
    using assms(4) by (intro power_int_increasing) simp_all
  moreover have "(2::real) powi 1023 < 2 ^ 1024 - 2 ^ 970" by (simp add: power_int_def)
  ultimately have fin: "\<bar>x\<bar> < 2 ^ 1024 - 2 ^ 970" using assms(2) by linarith
  have u: "ulp x = 2 ^ nat (e - 52)"
    using assms(3) by (simp add: ulp_def b power_int_def)
  from round64_finite[OF nz fin] show ?thesis unfolding u by simp
qed

lemma round64_tenths:
  "round64 (1 / 10) = Fin (7205759403792794 / 2 ^ 56)"
  "round64 (2 / 10) = Fin (7205759403792794 / 2 ^ 55)"
  "round64 (3 / 10) = Fin (5404319552844595 / 2 ^ 54)"
  "round64 (7205759403792794 / 2 ^ 56 + 7205759403792794 / 2 ^ 55)
     = Fin (5404319552844596 / 2 ^ 54)"
proof -
  show "round64 (1 / 10) = Fin (7205759403792794 / 2 ^ 56)"
    by (subst round64_eval[of "- 4"])
      (simp_all add: power_int_def round_half_even_def power_one_over)
  show "round64 (2 / 10) = Fin (7205759403792794 / 2 ^ 55)"
    by (subst round64_eval[of "- 3"])
      (simp_all add: power_int_def round_half_even_def power_one_over)
  show "round64 (3 / 10) = Fin (5404319552844595 / 2 ^ 54)"
    by (subst round64_eval[of "- 2"])
      (simp_all add: power_int_def round_half_even_def power_one_over)
  show "round64 (7205759403792794 / 2 ^ 56 + 7205759403792794 / 2 ^ 55)
     = Fin (5404319552844596 / 2 ^ 54)"
    by (subst round64_eval[of "- 2"])
      (simp_all add: power_int_def round_half_even_def power_one_over)
qed

lemma round64_ties:
  "round64 (2 ^ 53 + 1) = Fin (2 ^ 53)" "round64 (2 ^ 53 + 3) = Fin (2 ^ 53 + 4)"
  "round64 (- (2 ^ 53 + 3)) = Fin (- (2 ^ 53 + 4))"
proof -
  show "round64 (2 ^ 53 + 1) = Fin (2 ^ 53)"
    by (subst round64_eval_large[of 53]) (simp_all add: power_int_def round_half_even_def)
  show "round64 (2 ^ 53 + 3) = Fin (2 ^ 53 + 4)"
    by (subst round64_eval_large[of 53]) (simp_all add: power_int_def round_half_even_def)
  show "round64 (- (2 ^ 53 + 3)) = Fin (- (2 ^ 53 + 4))"
    by (subst round64_eval_large[of 53]) (simp_all add: power_int_def round_half_even_def)
qed

lemma round64_largest: "round64 (2 ^ 1024 - 2 ^ 971) = Fin (2 ^ 1024 - 2 ^ 971)"
proof -
  have b: "binade (2 ^ 1024 - 2 ^ 971) = 1023"
    by (rule binade_eqI) (simp_all add: power_int_def)
  have "round64 (2 ^ 1024 - 2 ^ 971)
      = Fin (of_int (round_half_even ((2 ^ 1024 - 2 ^ 971) / ulp (2 ^ 1024 - 2 ^ 971)))
             * ulp (2 ^ 1024 - 2 ^ 971))"
    by (rule round64_finite) simp_all
  then show ?thesis unfolding ulp_def b by (simp add: power_int_def round_half_even_def)
qed

lemma round64_smallest:
  "round64 (1 / 2 ^ 1075) = Fin 0" "round64 (3 / 2 ^ 1075) = Fin (2 / 2 ^ 1074)"
proof -
  have nz: "(1::real) / 2 ^ 1075 \<noteq> 0" by simp
  have "\<bar>(1::real) / 2 ^ 1075\<bar> < 2 powi (- 1022)" by (simp add: power_int_def field_simps)
  from ulp_subnormal[OF this nz] have u: "ulp (1 / 2 ^ 1075) = 2 powi (- 1074)" .
  have "\<bar>(1::real) / 2 ^ 1075\<bar> < 2 ^ 1024 - 2 ^ 970" by simp
  from round64_finite[OF nz this] show "round64 (1 / 2 ^ 1075) = Fin 0"
    unfolding u by (simp add: power_int_def round_half_even_def field_simps)
  have nz3: "(3::real) / 2 ^ 1075 \<noteq> 0" by simp
  have "\<bar>(3::real) / 2 ^ 1075\<bar> < 2 powi (- 1022)" by (simp add: power_int_def field_simps)
  from ulp_subnormal[OF this nz3] have u3: "ulp (3 / 2 ^ 1075) = 2 powi (- 1074)" .
  have "\<bar>(3::real) / 2 ^ 1075\<bar> < 2 ^ 1024 - 2 ^ 970" by simp
  from round64_finite[OF nz3 this] show "round64 (3 / 2 ^ 1075) = Fin (2 / 2 ^ 1074)"
    unfolding u3 by (simp add: power_int_def round_half_even_def field_simps)
qed

section \<open>Properties of the cosine similarity\<close>

lemma js_nonneg_round64: "0 \<le> x \<Longrightarrow> js_nonneg (round64 x)"
  using round64_nonneg[of x] by auto

lemma js_nonneg_cases:
  assumes "js_nonneg s"
  obtains "s = PosInf" | r where "s = Fin r" and "0 \<le> r"
  using assms by (cases s) simp_all

lemma js_nonneg_plus_square: "js_nonneg s \<Longrightarrow> js_nonneg (js_plus s (js_times (Fin y) (Fin y)))"
proof (erule js_nonneg_cases)
  have sq: "js_nonneg (round64 (y * y))" by (rule js_nonneg_round64) simp
  assume "s = PosInf"
  with sq show ?thesis by (cases "round64 (y * y)") simp_all
next
  fix r assume s: "s = Fin r" and r: "0 \<le> r"
  have sq: "js_nonneg (round64 (y * y))" by (rule js_nonneg_round64) simp
  show ?thesis
  proof (rule js_nonneg_cases[OF sq])
    assume "round64 (y * y) = PosInf"
    then show ?thesis by (simp add: s)
  next
    fix t assume t: "round64 (y * y) = Fin t" and "0 \<le> t"
    with r have "js_nonneg (round64 (r + t))" by (intro js_nonneg_round64) simp
    then show ?thesis by (simp add: s t)
  qed
qed

lemma js_nonneg_sqrt: "js_nonneg s \<Longrightarrow> js_nonneg (js_sqrt s)"
  by (erule js_nonneg_cases) (simp_all add: js_nonneg_round64)

lemma cosine_sums_zero_left:
  assumes "length a = length b" and "\<forall>x\<in>set a. x = 0" and "js_nonneg nb"
  shows "\<exists>nb'. cosine_sums a b (Fin 0, Fin 0, nb) = (Fin 0, Fin 0, nb') \<and> js_nonneg nb'"
  using assms
proof (induction a b arbitrary: nb rule: list_induct2)
  case Nil
  then show ?case by simp
next
  case (Cons x xs y ys)
  from Cons.prems have x: "x = 0" and rest: "\<forall>x\<in>set xs. x = 0" by simp_all
  have "js_nonneg (js_plus nb (js_times (Fin y) (Fin y)))"
    using Cons.prems(2) by (rule js_nonneg_plus_square)
  from Cons.IH[OF rest this] show ?case by (simp add: x round64_zero)
qed

lemma cosine_sums_zero_right:
  assumes "length a = length b" and "\<forall>y\<in>set b. y = 0" and "js_nonneg na"
  shows "\<exists>na'. cosine_sums a b (Fin 0, na, Fin 0) = (Fin 0, na', Fin 0) \<and> js_nonneg na'"
  using assms
proof (induction a b arbitrary: na rule: list_induct2)
  case Nil
  then show ?case by simp
next
  case (Cons x xs y ys)
  from Cons.prems have y: "y = 0" and rest: "\<forall>y\<in>set ys. y = 0" by simp_all
  have "js_nonneg (js_plus na (js_times (Fin x) (Fin x)))"
    using Cons.prems(2) by (rule js_nonneg_plus_square)
  from Cons.IH[OF rest this] show ?case by (simp add: y round64_zero)
qed

lemma zero_over_zero_times:
  assumes "js_nonneg s"
  shows "js_div (Fin 0) (js_times (Fin 0) s) = NaN" and "js_div (Fin 0) (js_times s (Fin 0)) = NaN"
  using assms by (auto elim!: js_nonneg_cases simp: round64_zero)

lemma squares_zero:
  assumes "sum_list (map (\<lambda>x. x * x) v) = (0::real)"
  shows "\<forall>x\<in>set v. x = 0"
proof -
  have "\<forall>y\<in>set (map (\<lambda>x. x * x) v). y = 0"
    using assms by (subst (asm) sum_list_nonneg_eq_0_iff) auto
  then show ?thesis by auto
qed

lemma zero_norm_iff: "zero_norm v \<longleftrightarrow> sum_list (map (\<lambda>x. x * x) v) = 0"
  by (simp add: zero_norm_def)

lemma cosine_zero_norm:
  assumes "length a = length b" and "zero_norm a \<or> zero_norm b"
  shows "cosineSimilarity a b = NaN"
proof -
  have z: "js_nonneg (Fin 0)" by simp
  from assms(2) show ?thesis
  proof
    assume "zero_norm a"
    then have "sum_list (map (\<lambda>x. x * x) a) = 0" by (simp only: zero_norm_iff)
    then have "\<forall>x\<in>set a. x = 0" by (rule squares_zero)
    from cosine_sums_zero_left[OF assms(1) this z] obtain nb
      where nb: "cosine_sums a b (Fin 0, Fin 0, Fin 0) = (Fin 0, Fin 0, nb)" "js_nonneg nb"
      by blast
    have "js_nonneg (js_sqrt nb)" using nb(2) by (rule js_nonneg_sqrt)
    then have "js_div (Fin 0) (js_times (Fin 0) (js_sqrt nb)) = NaN"
      by (rule zero_over_zero_times)
    then show ?thesis using assms(1) unfolding cosineSimilarity_def nb(1) by (simp add: round64_zero)
  next
    assume "zero_norm b"
    then have "sum_list (map (\<lambda>x. x * x) b) = 0" by (simp only: zero_norm_iff)
    then have "\<forall>y\<in>set b. y = 0" by (rule squares_zero)
    from cosine_sums_zero_right[OF assms(1) this z] obtain na
      where na: "cosine_sums a b (Fin 0, Fin 0, Fin 0) = (Fin 0, na, Fin 0)" "js_nonneg na"
      by blast
    have "js_nonneg (js_sqrt na)" using na(2) by (rule js_nonneg_sqrt)
    then have "js_div (Fin 0) (js_times (js_sqrt na) (Fin 0)) = NaN"
      by (rule zero_over_zero_times)
    then show ?thesis using assms(1) unfolding cosineSimilarity_def na(1) by (simp add: round64_zero)
  qed
qed
















lemma set_insert_by_score: "set (insert_by_score a xs) = insert a (set xs)"
  by (induction xs) auto

lemma set_sort_by_score: "set (sort_by_score xs) = set xs"
  by (induction xs) (auto simp: set_insert_by_score)

lemma length_insert_by_score: "length (insert_by_score a xs) = Suc (length xs)"
  by (induction xs) auto

lemma length_sort_by_score: "length (sort_by_score xs) = length xs"
  by (induction xs) (auto simp: length_insert_by_score)

lemma js_slice_to_all: "int (length xs) \<le> n \<Longrightarrow> js_slice_to n xs = xs"
  by (simp add: js_slice_to_def)

text \<open>
  Claim C10. For every pair of vectors of equal length of which at least one has zero
  norm, \<open>cosineSimilarity\<close> returns \<open>NaN\<close> (the quotient \<open>0 / 0\<close>, or \<open>0\<close> over the
  \<open>NaN\<close> that zero times an overflowed norm gives), not 0 and not an error. Hence
  \<open>similaritySearch\<close> returns results whose score is \<open>NaN\<close>: for every stored
  document whose embedding \<open>b\<close> meets the query \<open>a\<close> in this way, the result list
  (taken whole, \<open>topK\<close> being at least the number of documents) holds the document's
  id with the score \<open>NaN\<close>, after the sort.
\<close>

theorem cosineSimilarity_zero_norm_NaN:
  assumes "length a = length b" and "zero_norm a \<or> zero_norm b"
  shows "cosineSimilarity a b = NaN
       \<and> ((k, d) \<in> set documents \<and> doc_embedding d = b \<and> int (length documents) \<le> topK
            \<longrightarrow> (\<exists>r\<in>set (similaritySearch documents a topK). res_id r = k \<and> score r = NaN))"
proof (intro conjI impI)
  show nan: "cosineSimilarity a b = NaN" using assms by (rule cosine_zero_norm)
  assume h: "(k, d) \<in> set documents \<and> doc_embedding d = b \<and> int (length documents) \<le> topK"
  let ?mk = "\<lambda>(k, doc). \<lparr>res_id = k, res_content = doc_content doc,
                             score = cosineSimilarity a (doc_embedding doc),
                             res_embedding = doc_embedding doc\<rparr>"
  have all: "similaritySearch documents a topK = sort_by_score (map ?mk documents)"
    using h by (simp add: similaritySearch_def js_slice_to_all length_sort_by_score)
  from h have "(k, d) \<in> set documents" by simp
  then have "?mk (k, d) \<in> ?mk ` set documents" by (rule imageI)
  then have "?mk (k, d) \<in> set (sort_by_score (map ?mk documents))"
    unfolding set_sort_by_score by simp
  moreover have "res_id (?mk (k, d)) = k \<and> score (?mk (k, d)) = NaN"
    using h nan by simp
  ultimately show "\<exists>r\<in>set (similaritySearch documents a topK). res_id r = k \<and> score r = NaN"
    unfolding all by blast
qed

theorem cosineSimilarity_zero_norm_NaN_witness:
  "zero_norm [0, 0]
   \<and> cosineSimilarity [0, 0] [1, 2] = NaN
   \<and> map (\<lambda>r. (res_id r, score r)) (similaritySearch two_documents [0, 0] 5)
       = [(''d1'', NaN), (''d2'', NaN)]"
proof -
  have len: "length [0, 0::real] = length [1, 2::real]" by simp
  have z: "zero_norm [0, 0] \<or> zero_norm [1, 2]" by (simp add: zero_norm_def)
  have z0: "zero_norm [0, 0]" by (simp add: zero_norm_def)
  have len0: "length [0, 0::real] = length [0, 0::real]" by simp
  have z00: "zero_norm [0, 0] \<or> zero_norm [0, 0]" by (simp add: zero_norm_def)
  have c1: "cosineSimilarity [0, 0] [1, 2] = NaN"
    using cosineSimilarity_zero_norm_NaN[OF len z] by simp
  have c2: "cosineSimilarity [0, 0] [0, 0] = NaN"
    using cosineSimilarity_zero_norm_NaN[OF len0 z00] by simp
  have "map (\<lambda>r. (res_id r, score r)) (similaritySearch two_documents [0, 0] 5)
       = [(''d1'', NaN), (''d2'', NaN)]"
    by (simp add: similaritySearch_def two_documents_def doc_def c1 c2 js_slice_to_def
        comparator_def js_minus_def)
  with z0 c1 show ?thesis by simp
qed

section \<open>Properties of the hybrid merge\<close>

lemma keys_combine_text:
  "fst ` set (combine_text w ts c) = fst ` set c \<union> res_id ` set ts"
  by (induction ts arbitrary: c) (auto simp: dom_update)

lemma distinct_combine_text:
  "distinct (map fst c) \<Longrightarrow> distinct (map fst (combine_text w ts c))"
  by (induction ts arbitrary: c) (simp_all add: distinct_update)

lemma keys_combine_semantic:
  "fst ` set (combine_semantic w ss c) = fst ` set c \<union> res_id ` set ss"
  by (induction ss arbitrary: c) (auto simp: dom_update split: option.splits)

lemma distinct_combine_semantic:
  "distinct (map fst c) \<Longrightarrow> distinct (map fst (combine_semantic w ss c))"
  by (induction ss arbitrary: c) (simp_all add: distinct_update split: option.splits)

lemma map_of_by_id:
  assumes "distinct (map res_id xs)" and "x \<in> set xs"
  shows "map_of (map (\<lambda>r. (res_id r, f r)) xs) (res_id x) = Some (f x)"
  using assms by (induction xs) (auto simp: rev_image_eqI)

lemma map_of_by_id_none:
  assumes "i \<notin> res_id ` set xs"
  shows "map_of (map (\<lambda>r. (res_id r, f r)) xs) i = None"
  using assms by (induction xs) auto

text \<open>The map \<open>combined\<close> after the text results.\<close>

lemma lookup_combine_text:
  assumes "distinct (map res_id ts)"
  shows "map_of (combine_text w ts c) i =
     (if i \<in> res_id ` set ts
      then map_of (map (\<lambda>r. (res_id r,
                     r\<lparr>score := js_times (score r) (text_weight w)\<rparr>)) ts) i
      else map_of c i)"
  using assms
proof (induction ts arbitrary: c i)
  case Nil
  show ?case by simp
next
  case (Cons r rest)
  then have d: "distinct (map res_id rest)" and fresh: "res_id r \<notin> res_id ` set rest"
    by simp_all
  show ?case
  proof (cases "i = res_id r")
    case True
    with fresh show ?thesis by (simp add: Cons.IH[OF d] update_conv')
  next
    case False
    then show ?thesis by (simp add: Cons.IH[OF d] update_conv')
  qed
qed

text \<open>The map \<open>combined\<close> after the semantic results.\<close>

lemma lookup_combine_semantic:
  assumes "distinct (map res_id ss)"
  shows "map_of (combine_semantic w ss c) i =
     (case map_of (map (\<lambda>r. (res_id r, r)) ss) i of
        None \<Rightarrow> map_of c i
      | Some r \<Rightarrow>
          Some (case map_of c i of
                  Some existing \<Rightarrow>
                    existing\<lparr>score := js_plus (score existing)
                                         (js_times (score r) (semantic_weight w))\<rparr>
                | None \<Rightarrow> r\<lparr>score := js_times (score r) (semantic_weight w)\<rparr>))"
  using assms
proof (induction ss arbitrary: c i)
  case Nil
  show ?case by simp
next
  case (Cons r rest)
  then have d: "distinct (map res_id rest)" and fresh: "res_id r \<notin> res_id ` set rest"
    by simp_all
  have none: "map_of (map (\<lambda>r. (res_id r, r)) rest) (res_id r) = None"
    using fresh by (rule map_of_by_id_none)
  show ?case
  proof (cases "i = res_id r")
    case True
    then show ?thesis
      by (simp add: Cons.IH[OF d] none update_conv' split: option.splits)
  next
    case False
    then show ?thesis
      by (simp add: Cons.IH[OF d] update_conv' split: option.splits)
  qed
qed

lemma score_in_member:
  assumes "distinct (map res_id xs)" and "x \<in> set xs"
  shows "score_in xs (res_id x) = Some (score x)"
  unfolding score_in_def using assms by (rule map_of_by_id)

lemma score_in_none:
  assumes "i \<notin> res_id ` set xs"
  shows "score_in xs i = None"
  unfolding score_in_def using assms by (rule map_of_by_id_none)

text \<open>Every entry of \<open>combined\<close> is stored under its own id and carries the score of
  the specification's formula, a double.\<close>

lemma combined_entry:
  assumes dt: "distinct (map res_id ts)" and ds: "distinct (map res_id ss)"
    and entry: "map_of (combine_semantic w ss (combine_text w ts [])) i = Some v"
  shows "res_id v = i \<and> spec_hybrid_score ts ss w i = Some (score v) \<and> on_grid (score v)"
proof (cases "i \<in> res_id ` set ss")
  case inS: True
  then obtain s where s: "s \<in> set ss" "res_id s = i" by auto
  have ls: "map_of (map (\<lambda>r. (res_id r, r)) ss) i = Some s"
    using map_of_by_id[OF ds s(1), of "\<lambda>r. r"] s(2) by simp
  have ss: "score_in ss i = Some (score s)"
    using score_in_member[OF ds s(1)] s(2) by simp
  show ?thesis
  proof (cases "i \<in> res_id ` set ts")
    case inT: True
    then obtain t where t: "t \<in> set ts" "res_id t = i" by auto
    have lt: "map_of (combine_text w ts []) i
        = Some (t\<lparr>score := js_times (score t) (text_weight w)\<rparr>)"
      using map_of_by_id[OF dt t(1),
          of "\<lambda>r. r\<lparr>score := js_times (score r) (text_weight w)\<rparr>"] t(2) inT
      by (simp add: lookup_combine_text[OF dt])
    have st: "score_in ts i = Some (score t)"
      using score_in_member[OF dt t(1)] t(2) by simp
    have "v = t\<lparr>score := js_plus (js_times (score t) (text_weight w))
                              (js_times (score s) (semantic_weight w))\<rparr>"
      using entry by (simp add: lookup_combine_semantic[OF ds] ls lt)
    then have "res_id v = i"
      and "score v = js_plus (js_times (score t) (text_weight w))
                              (js_times (score s) (semantic_weight w))"
      using t(2) by simp_all
    then show ?thesis by (simp add: spec_hybrid_score_def st ss on_grid_plus)
  next
    case notT: False
    have lt: "map_of (combine_text w ts []) i = None"
      using notT by (simp add: lookup_combine_text[OF dt])
    have st: "score_in ts i = None" using notT by (rule score_in_none)
    have "v = s\<lparr>score := js_times (score s) (semantic_weight w)\<rparr>"
      using entry by (simp add: lookup_combine_semantic[OF ds] ls lt)
    then have "res_id v = i"
      and "score v = js_times (score s) (semantic_weight w)"
      using s(2) by simp_all
    then show ?thesis by (simp add: spec_hybrid_score_def st ss on_grid_times)
  qed
next
  case notS: False
  have ls: "map_of (map (\<lambda>r. (res_id r, r)) ss) i = None"
    using notS by (rule map_of_by_id_none)
  have ss: "score_in ss i = None" using notS by (rule score_in_none)
  have e: "map_of (combine_text w ts []) i = Some v"
    using entry by (simp add: lookup_combine_semantic[OF ds] ls)
  then have inT: "i \<in> res_id ` set ts"
    by (simp add: lookup_combine_text[OF dt] split: if_splits)
  then obtain t where t: "t \<in> set ts" "res_id t = i" by auto
  have "map_of (combine_text w ts []) i
        = Some (t\<lparr>score := js_times (score t) (text_weight w)\<rparr>)"
    using map_of_by_id[OF dt t(1),
        of "\<lambda>r. r\<lparr>score := js_times (score r) (text_weight w)\<rparr>"] t(2) inT
    by (simp add: lookup_combine_text[OF dt])
  with e have v: "v = t\<lparr>score := js_times (score t) (text_weight w)\<rparr>" by simp
  have st: "score_in ts i = Some (score t)"
    using score_in_member[OF dt t(1)] t(2) by simp
  from v have "res_id v = i"
    and "score v = js_times (score t) (text_weight w)"
    using t(2) by simp_all
  then show ?thesis by (simp add: spec_hybrid_score_def st ss on_grid_times)
qed

text \<open>The sort puts a list of doubles without \<open>NaN\<close> in descending order.\<close>

lemma js_ge_trans: "js_ge a b \<Longrightarrow> js_ge b c \<Longrightarrow> js_ge a c"
  by (cases a; cases b; cases c) simp_all

lemma js_ge_total: "a \<noteq> NaN \<Longrightarrow> b \<noteq> NaN \<Longrightarrow> js_ge a b \<or> js_ge b a"
  by (cases a; cases b) auto

lemma positive_comparator:
  assumes "on_grid (score a)" and "on_grid (score b)"
    and "score a \<noteq> NaN" and "score b \<noteq> NaN"
  shows "js_positive (comparator a b) \<longleftrightarrow> \<not> descending a b"
  unfolding comparator_def descending_def using assms by (rule js_positive_minus)

lemma sorted_insert_by_score:
  assumes "on_grid (score a) \<and> score a \<noteq> NaN"
    and "\<forall>x\<in>set xs. on_grid (score x) \<and> score x \<noteq> NaN"
    and "sorted_wrt descending xs"
  shows "sorted_wrt descending (insert_by_score a xs)"
  using assms
proof (induction xs)
  case Nil
  show ?case by simp
next
  case (Cons b rest)
  have pc: "js_positive (comparator a b) \<longleftrightarrow> \<not> descending a b"
    using Cons.prems(1,2) by (intro positive_comparator) simp_all
  show ?case
  proof (cases "js_positive (comparator a b)")
    case True
    then have "\<not> descending a b" using pc by simp
    then have ba: "descending b a"
      using js_ge_total[of "score a" "score b"] Cons.prems(1,2) by (auto simp: descending_def)
    have "sorted_wrt descending (insert_by_score a rest)"
      using Cons by simp
    with True ba Cons.prems show ?thesis
      by (auto simp: set_insert_by_score)
  next
    case False
    then have ab: "descending a b" using pc by simp
    have "\<forall>x\<in>set rest. descending a x"
    proof
      fix x assume "x \<in> set rest"
      with Cons.prems(3) have "descending b x" by simp
      with ab show "descending a x" unfolding descending_def by (rule js_ge_trans)
    qed
    with False ab Cons.prems(3) show ?thesis by simp
  qed
qed

lemma sorted_sort_by_score:
  assumes "\<forall>x\<in>set xs. on_grid (score x) \<and> score x \<noteq> NaN"
  shows "sorted_wrt descending (sort_by_score xs)"
  using assms
  by (induction xs) (simp_all add: sorted_insert_by_score set_sort_by_score)

lemma distinct_insert_by_score:
  "distinct (map res_id (insert_by_score a xs)) \<longleftrightarrow> distinct (map res_id (a # xs))"
  by (induction xs) (auto simp: set_insert_by_score)

lemma distinct_sort_by_score:
  "distinct (map res_id (sort_by_score xs)) \<longleftrightarrow> distinct (map res_id xs)"
  by (induction xs) (auto simp: distinct_insert_by_score set_sort_by_score)

text \<open>The merge of two result sets that each list an id at most once.\<close>

lemma hybrid_merge_spec:
  assumes dt: "distinct (map res_id textResults)" and ds: "distinct (map res_id semanticResults)"
  shows "spec_merge textResults semanticResults w (hybrid_merge textResults semanticResults w)"
proof -
  let ?C = "combine_semantic w semanticResults (combine_text w textResults [])"
  let ?M = "hybrid_merge textResults semanticResults w"
  have dC: "distinct (map fst ?C)"
    by (simp add: distinct_combine_semantic distinct_combine_text)
  have entry: "res_id v = k
       \<and> spec_hybrid_score textResults semanticResults w k = Some (score v)
       \<and> on_grid (score v)" if "(k, v) \<in> set ?C" for k v
  proof -
    from that dC have "map_of ?C k = Some v" by simp
    with dt ds show ?thesis by (rule combined_entry)
  qed
  have ids: "map res_id (map snd ?C) = map fst ?C"
    using entry by auto
  have keys: "fst ` set ?C = res_id ` set textResults \<union> res_id ` set semanticResults"
    by (simp add: keys_combine_semantic keys_combine_text)
  have grid: "\<forall>r\<in>set (map snd ?C). on_grid (score r)"
    using entry by auto
  have mem: "set ?M = snd ` set ?C"
    unfolding hybrid_merge_def set_sort_by_score by simp
  have one: "res_id ` set ?M = res_id ` set textResults \<union> res_id ` set semanticResults"
  proof -
    have "res_id ` set ?M = set (map res_id (map snd ?C))"
      unfolding mem by (simp add: image_image)
    also have "\<dots> = fst ` set ?C" unfolding ids by simp
    finally show ?thesis using keys by simp
  qed
  have two: "distinct (map res_id ?M)"
    unfolding hybrid_merge_def distinct_sort_by_score ids by (rule dC)
  have three: "\<forall>r\<in>set ?M. spec_hybrid_score textResults semanticResults w (res_id r)
                 = Some (score r)"
  proof
    fix r assume "r \<in> set ?M"
    then have "r \<in> snd ` set ?C" unfolding mem .
    then obtain k where "(k, r) \<in> set ?C" by auto
    from entry[OF this]
    show "spec_hybrid_score textResults semanticResults w (res_id r) = Some (score r)"
      by simp
  qed
  have four: "NaN \<notin> score ` set ?M \<longrightarrow> sorted_descending ?M"
  proof
    assume "NaN \<notin> score ` set ?M"
    then have "\<forall>r\<in>set (map snd ?C). score r \<noteq> NaN"
      unfolding mem by (auto simp: image_iff)
    with grid have "\<forall>r\<in>set (map snd ?C). on_grid (score r) \<and> score r \<noteq> NaN" by simp
    then show "sorted_descending ?M"
      unfolding sorted_descending_def hybrid_merge_def by (rule sorted_sort_by_score)
  qed
  from one two three four show ?thesis unfolding spec_merge_def by blast
qed

text \<open>The two searches of the store list each document id at most once.\<close>

lemma distinct_js_slice_to: "distinct (map f xs) \<Longrightarrow> distinct (map f (js_slice_to n xs))"
  by (simp add: js_slice_to_def take_map[symmetric])

lemma distinct_search:
  assumes "distinct (map fst documents)"
  shows "distinct (map res_id (search toLowerCase documents query maxResults))"
proof -
  have eq: "res_id \<circ> (\<lambda>(k, doc). \<lparr>res_id = k, res_content = doc_content doc,
             score = round64 (8 / 10), res_embedding = doc_embedding doc\<rparr>) = fst"
    by (auto simp: fun_eq_iff)
  have "distinct (map fst (filter (\<lambda>(k, doc).
          string_includes (toLowerCase (doc_content doc)) (toLowerCase query)) documents))"
    using assms by (rule distinct_map_filter)
  then show ?thesis
    unfolding search_def by (intro distinct_js_slice_to) (simp only: map_map eq)
qed

lemma distinct_similaritySearch:
  assumes "distinct (map fst documents)"
  shows "distinct (map res_id (similaritySearch documents embedding topK))"
proof -
  have eq: "res_id \<circ> (\<lambda>(k, doc). \<lparr>res_id = k, res_content = doc_content doc,
             score = cosineSimilarity embedding (doc_embedding doc),
             res_embedding = doc_embedding doc\<rparr>) = fst"
    by (auto simp: fun_eq_iff)
  show ?thesis
    unfolding similaritySearch_def using assms
    by (intro distinct_js_slice_to) (simp only: distinct_sort_by_score map_map eq)
qed

text \<open>
  Claim C4, as amended. Let the text results and the semantic results each list every
  document id at most once. Then the merged list holds exactly the ids of the two
  sets, each once; the entry of an id has the score
  \<open>textScore * w_text + semanticScore * w_semantic\<close> when the id is in both sets,
  \<open>textScore * w_text\<close> when it is only in the text set and
  \<open>semanticScore * w_semantic\<close> when it is only in the semantic set, the products
  and the sum being those of the doubles; and the list is in descending order of score
  when no merged score is \<open>NaN\<close>. \<open>hybridSearch\<close> returns this merge of the results
  of \<open>search\<close> and of \<open>similaritySearch\<close>, each cut to 100, for every store whose
  documents have distinct ids, as the keys of a \<open>Map\<close> are. For the text results
  \<open>{(id1, 0.8)}\<close>, the semantic results \<open>{(id1, 0.6), (id2, 0.5)}\<close> and the weights
  1 and 1 the output is \<open>[id1, id2]\<close> with the scores 1.4 and 0.5.
\<close>

theorem hybrid_merge_scores_and_order:
  "(distinct (map res_id textResults) \<and> distinct (map res_id semanticResults)
      \<longrightarrow> spec_merge textResults semanticResults w
            (hybrid_merge textResults semanticResults w))
   \<and> (distinct (map fst documents)
      \<longrightarrow> spec_merge (search toLowerCase documents textQuery 100)
            (similaritySearch documents embedding 100) w
            (hybridSearch toLowerCase documents textQuery embedding w))"
proof (intro conjI impI)
  assume "distinct (map res_id textResults) \<and> distinct (map res_id semanticResults)"
  then show "spec_merge textResults semanticResults w
            (hybrid_merge textResults semanticResults w)"
    by (intro hybrid_merge_spec) simp_all
next
  assume d: "distinct (map fst documents)"
  show "spec_merge (search toLowerCase documents textQuery 100)
            (similaritySearch documents embedding 100) w
            (hybridSearch toLowerCase documents textQuery embedding w)"
    unfolding hybridSearch_def
    using distinct_search[OF d] distinct_similaritySearch[OF d] by (rule hybrid_merge_spec)
qed

lemma cosineSimilarity_unit_vectors:
  "cosineSimilarity [0, 1] [1, 0] = Fin 0" "cosineSimilarity [0, 1] [0, 1] = Fin 1"
  "cosineSimilarity [0, 1] [0, 0] = NaN"
  by (simp_all add: cosineSimilarity_def round64_zero round64_one)

lemma example_merge:
  "hybrid_merge [result ''id1'' (8 / 10)] [result ''id1'' (6 / 10), result ''id2'' (5 / 10)]
     unit_weights
     = [result ''id1'' (14 / 10), result ''id2'' (5 / 10)]"
  unfolding hybrid_merge_def result_def unit_weights_def round64_decimals
  by (simp add: comparator_def js_minus_def round64_doubles round64_sum_0_8_0_6
      comparator_signs)

lemma example_search:
  "search lowercase_unchanged unit_documents (units ''alpha'') 100
     = [\<lparr>res_id = ''d1'', res_content = units ''alpha'', score = Fin double_0_8,
         res_embedding = [1, 0]\<rparr>]"
  unfolding search_def round64_decimals
  by (simp add: unit_documents_def doc_def lowercase_unchanged_def units_def js_slice_to_def)

lemma example_similaritySearch:
  "similaritySearch unit_documents [0, 1] 100
     = [\<lparr>res_id = ''d2'', res_content = units ''beta'', score = Fin 1,
         res_embedding = [0, 1]\<rparr>,
        \<lparr>res_id = ''d1'', res_content = units ''alpha'', score = Fin 0,
         res_embedding = [1, 0]\<rparr>]"
  by (simp add: similaritySearch_def unit_documents_def doc_def cosineSimilarity_unit_vectors
      comparator_def js_minus_def round64_one js_slice_to_def)

lemma example_hybridSearch:
  "map (\<lambda>r. (res_id r, score r))
     (hybridSearch lowercase_unchanged unit_documents (units ''alpha'') [0, 1] unit_weights)
     = [(''d2'', Fin 1), (''d1'', Fin double_0_8)]"
  unfolding hybridSearch_def example_search example_similaritySearch
  by (simp add: hybrid_merge_def unit_weights_def comparator_def js_minus_def round64_zero
      round64_one round64_doubles comparator_signs)

theorem hybrid_merge_scores_and_order_witness:
  "hybrid_merge [result ''id1'' (8 / 10)] [result ''id1'' (6 / 10), result ''id2'' (5 / 10)]
     unit_weights
     = [result ''id1'' (14 / 10), result ''id2'' (5 / 10)]
   \<and> spec_merge [result ''id1'' (8 / 10)] [result ''id1'' (6 / 10), result ''id2'' (5 / 10)]
        unit_weights [result ''id1'' (14 / 10), result ''id2'' (5 / 10)]
   \<and> sorted_descending [result ''id1'' (14 / 10), result ''id2'' (5 / 10)]
   \<and> map (\<lambda>r. (res_id r, score r))
        (hybridSearch lowercase_unchanged unit_documents (units ''alpha'') [0, 1] unit_weights)
        = [(''d2'', Fin 1), (''d1'', Fin double_0_8)]
   \<and> spec_merge (search lowercase_unchanged unit_documents (units ''alpha'') 100)
        (similaritySearch unit_documents [0, 1] 100) unit_weights
        (hybridSearch lowercase_unchanged unit_documents (units ''alpha'') [0, 1] unit_weights)"
proof -
  let ?ts = "[result ''id1'' (8 / 10)]"
  let ?ss = "[result ''id1'' (6 / 10), result ''id2'' (5 / 10)]"
  let ?out = "[result ''id1'' (14 / 10), result ''id2'' (5 / 10)]"
  have dt: "distinct (map res_id ?ts) \<and> distinct (map res_id ?ss)" by (simp add: result_def)
  have dd: "distinct (map fst unit_documents)" by (simp add: unit_documents_def)
  from hybrid_merge_scores_and_order[where textResults = ?ts and semanticResults = ?ss
      and w = unit_weights and documents = unit_documents
      and toLowerCase = lowercase_unchanged and textQuery = "units ''alpha''"
      and embedding = "[0, 1]"] dt dd
  have m: "spec_merge ?ts ?ss unit_weights (hybrid_merge ?ts ?ss unit_weights)"
    and h: "spec_merge (search lowercase_unchanged unit_documents (units ''alpha'') 100)
        (similaritySearch unit_documents [0, 1] 100) unit_weights
        (hybridSearch lowercase_unchanged unit_documents (units ''alpha'') [0, 1] unit_weights)"
    by blast+
  from m have m': "spec_merge ?ts ?ss unit_weights ?out" unfolding example_merge .
  have "score ` set ?out = {Fin double_1_4, Fin double_0_5}"
    unfolding result_def round64_decimals by simp
  then have "NaN \<notin> score ` set ?out" by simp
  with m' have s: "sorted_descending ?out" unfolding spec_merge_def by blast
  from example_merge m' s example_hybridSearch h show ?thesis by blast
qed

text \<open>
  The claim as stated fails: \<open>hybridSearch\<close> computes the semantic result set itself,
  and a stored embedding of zero norm gives it a \<open>NaN\<close> score, which no sort by
  \<open>b.score - a.score\<close> can place. With the documents \<open>d1 [1, 0]\<close>, \<open>d2 [0, 0]\<close>,
  \<open>d3 [0, 1]\<close>, the embedding \<open>[0, 1]\<close>, a text that matches no document and the
  weights 1 and 1, the merged scores are 0, \<open>NaN\<close>, 1 in this order.
\<close>

theorem hybridSearch_order_counterexample:
  "map res_id (hybridSearch lowercase_unchanged three_documents (units ''zzz'') [0, 1]
                 unit_weights) = [''d1'', ''d2'', ''d3'']
   \<and> map score (hybridSearch lowercase_unchanged three_documents (units ''zzz'') [0, 1]
                   unit_weights) = [Fin 0, NaN, Fin 1]
   \<and> \<not> sorted_descending (hybridSearch lowercase_unchanged three_documents (units ''zzz'')
                             [0, 1] unit_weights)"
proof -
  have t: "search lowercase_unchanged three_documents (units ''zzz'') 100 = []"
    by (simp add: search_def three_documents_def doc_def lowercase_unchanged_def units_def
        js_slice_to_def)
  have s: "similaritySearch three_documents [0, 1] 100
     = [\<lparr>res_id = ''d1'', res_content = units ''alpha'', score = Fin 0,
         res_embedding = [1, 0]\<rparr>,
        \<lparr>res_id = ''d2'', res_content = units ''beta'', score = NaN,
         res_embedding = [0, 0]\<rparr>,
        \<lparr>res_id = ''d3'', res_content = units ''gamma'', score = Fin 1,
         res_embedding = [0, 1]\<rparr>]"
    by (simp add: similaritySearch_def three_documents_def doc_def
        cosineSimilarity_unit_vectors comparator_def js_minus_def js_slice_to_def)
  have h: "hybridSearch lowercase_unchanged three_documents (units ''zzz'') [0, 1] unit_weights
     = [\<lparr>res_id = ''d1'', res_content = units ''alpha'', score = Fin 0,
         res_embedding = [1, 0]\<rparr>,
        \<lparr>res_id = ''d2'', res_content = units ''beta'', score = NaN,
         res_embedding = [0, 0]\<rparr>,
        \<lparr>res_id = ''d3'', res_content = units ''gamma'', score = Fin 1,
         res_embedding = [0, 1]\<rparr>]"
    unfolding hybridSearch_def t s
    by (simp add: hybrid_merge_def unit_weights_def comparator_def js_minus_def round64_zero
        round64_one)
  show ?thesis unfolding h by (simp add: sorted_descending_def descending_def)
qed

end
